theory Spec2Isabelle
  imports Main "HOL-Library.Word"
begin

unbundle bit_operations_syntax

section \<open>The Linux signer (buildSrc/linuxsigner.js)\<close>

text \<open>
  The script exports one function, \<open>signer(filePath)\<close>, which reads the file to sign,
  obtains an RSA private key from a PKCS#12 bundle (\<open>getPrivateKey()\<close>), signs the
  SHA-512 digest of the file and writes the signature next to the file.  Everything it
  touches outside its own twenty lines is library code: Node's \<open>fs\<close>, \<open>path\<close> and
  \<open>Buffer\<close>, and node-forge.  The embedding below makes the process state explicit (the
  environment, the file system, and a trace of the I/O performed), models the small
  library functions (\<open>path\<close>, base64, binary strings, the bag lookup) by what they
  compute, and takes the cryptographic functions of node-forge as parameters.
\<close>

subsection \<open>Data\<close>

type_synonym byte = "8 word"

text \<open>A Node \<open>Buffer\<close>: a sequence of bytes.\<close>

type_synonym buffer = "byte list"

text \<open>
  A JavaScript string that carries binary data (node-forge's ``binary strings''), given by
  its UTF-16 code units.  Paths, environment values and base64 text are written as HOL
  strings.
\<close>

type_synonym binstr = "nat list"

type_synonym path = string

text \<open>
  What the script can throw.  \<open>MissingEnvError\<close> is the one explicit \<open>throw new Error\<close> of
  the source (in \<open>getPrivateKey\<close>); \<open>ReadFailed\<close> and \<open>WriteFailed\<close> are the exceptions of
  \<open>fs.readFileSync\<close> and \<open>fs.writeFileSync\<close>; \<open>ForgeError\<close> is an exception thrown inside
  node-forge; \<open>TypeError\<close> is the run-time error of reading a property of \<open>undefined\<close>
  (its argument is the property read).
\<close>

datatype 'e js_error =
    MissingEnvError
  | ReadFailed path
  | WriteFailed path
  | ForgeError 'e
  | TypeError string

text \<open>
  The I/O the script performs, in the order it is performed: a line on the console, an
  attempt to read a file (recorded whether or not it succeeds), bytes written to a file
  (the bytes that reached the file, which is all of them when the write completes).
\<close>

datatype io_event =
    ConsoleLog "string list"
  | ReadFile path
  | WriteFile path buffer

text \<open>
  What the operating system does with a write through a path: the write completes; the
  path cannot be opened for writing (no such directory, no permission, a directory in the
  way); or the file is opened, which empties it, and the write breaks off when only the
  first \<open>n\<close> bytes have reached it (the disk is full, an I/O error).
\<close>

datatype write_outcome =
    Completes
  | FailsAtOpen
  | FailsAfter nat

text \<open>
  The process state.  \<open>env\<close> is \<open>process.env\<close>.  \<open>files w p\<close> is what reading the path \<open>p\<close> yields:
  the content of the file, or \<open>None\<close> when there is no readable file.  Different path texts
  can name one file (\<open>x\<close>, \<open>./x\<close> and \<open>d/../x\<close>, or a link and its target): \<open>canonical w p\<close> is
  the canonical name of the file that \<open>p\<close> denotes, as \<open>fs.realpathSync\<close> computes it, and two
  texts name the same file exactly when their canonical names are equal.  The script
  creates no links or directories and does not change its working directory, so
  \<open>canonical\<close> stays as it is during a run.  \<open>on_write w p\<close> is what a write through \<open>p\<close>
  will meet, and \<open>trace\<close> is the I/O so far.
\<close>

record world =
  env :: "string \<rightharpoonup> string"
  files :: "path \<rightharpoonup> buffer"
  canonical :: "path \<Rightarrow> path"
  on_write :: "path \<Rightarrow> write_outcome"
  trace :: "io_event list"

definition same_file :: "world \<Rightarrow> path \<Rightarrow> path \<Rightarrow> bool" where
  "same_file w p q = (canonical w p = canonical w q)"

subsection \<open>Node's \<open>console\<close> and \<open>fs\<close>\<close>

definition console_log :: "world \<Rightarrow> string list \<Rightarrow> world" where
  "console_log w args = w\<lparr>trace := trace w @ [ConsoleLog args]\<rparr>"

text \<open>\<open>fs.readFileSync(p)\<close>: the content, or an exception when there is no readable file.\<close>

definition readFileSync :: "world \<Rightarrow> path \<Rightarrow> ('e js_error + buffer) \<times> world" where
  "readFileSync w p =
     (let w' = w\<lparr>trace := trace w @ [ReadFile p]\<rparr> in
      case files w p of
        None \<Rightarrow> (Inl (ReadFailed p), w')
      | Some content \<Rightarrow> (Inr content, w'))"

text \<open>
  The files once the file that \<open>p\<close> names holds \<open>content\<close>: every path text that names that
  file reads \<open>content\<close>, every other path reads what it read.
\<close>

definition file_put :: "world \<Rightarrow> path \<Rightarrow> buffer \<Rightarrow> (path \<rightharpoonup> buffer)" where
  "file_put w p content = (\<lambda>q. if same_file w q p then Some content else files w q)"

text \<open>
  \<open>fs.writeFileSync(p, data)\<close> opens \<open>p\<close> with the flag \<open>w\<close> (create, or truncate to length
  zero), writes \<open>data\<close> into the file in place and closes it.  There is no temporary file
  and no rename.  When the open fails, nothing has changed.  When the write breaks off
  after \<open>n\<close> bytes, the exception leaves a file that holds those \<open>n\<close> bytes only: the old
  content is gone, and with \<open>n = 0\<close> the file is empty.
\<close>

definition writeFileSync :: "world \<Rightarrow> path \<Rightarrow> buffer \<Rightarrow> ('e js_error + unit) \<times> world" where
  "writeFileSync w p content =
     (case on_write w p of
        Completes \<Rightarrow>
          (Inr (), w\<lparr>files := file_put w p content,
                      trace := trace w @ [WriteFile p content]\<rparr>)
      | FailsAtOpen \<Rightarrow> (Inl (WriteFailed p), w)
      | FailsAfter n \<Rightarrow>
          (Inl (WriteFailed p),
           w\<lparr>files := file_put w p (take n content),
              trace := trace w @ [WriteFile p (take n content)]\<rparr>))"

subsection \<open>Node's \<open>path\<close> module (POSIX)\<close>

text \<open>
  \<open>path.basename(p)\<close>: trailing slashes are ignored, the result is what follows the last
  remaining slash.
\<close>

definition basename :: "path \<Rightarrow> string" where
  "basename p =
     rev (takeWhile (\<lambda>c. c \<noteq> CHR ''/'') (dropWhile (\<lambda>c. c = CHR ''/'') (rev p)))"

text \<open>
  \<open>path.dirname(p)\<close>.  Node scans the indices \<open>length - 1\<close> down to \<open>1\<close>: it skips trailing
  slashes, then the last name, and cuts the path before the slash it stops at.  Index \<open>0\<close>
  is not scanned: with no slash found the result is \<open>/\<close> for a rooted path and \<open>.\<close>
  otherwise; a cut at index \<open>1\<close> of a rooted path gives \<open>//\<close>.
\<close>

definition dirname :: "path \<Rightarrow> string" where
  "dirname p =
     (case p of
        [] \<Rightarrow> ''.''
      | c0 # cs \<Rightarrow>
          (let hasRoot = (c0 = CHR ''/'') in
           case dropWhile (\<lambda>c. c \<noteq> CHR ''/'') (dropWhile (\<lambda>c. c = CHR ''/'') (rev cs)) of
             [] \<Rightarrow> if hasRoot then ''/'' else ''.''
           | _ # pre \<Rightarrow>
               if hasRoot \<and> pre = [] then ''//'' else c0 # rev pre))"

text \<open>\<open>s.split('/')\<close>.\<close>

fun split_slash :: "string \<Rightarrow> string list" where
  "split_slash [] = [[]]"
| "split_slash (c # cs) =
     (if c = CHR ''/'' then [] # split_slash cs
      else (case split_slash cs of
              [] \<Rightarrow> [[c]]
            | s # ss \<Rightarrow> (c # s) # ss))"

text \<open>\<open>segs.join('/')\<close>.\<close>

fun join_slash :: "string list \<Rightarrow> string" where
  "join_slash [] = []"
| "join_slash [s] = s"
| "join_slash (s # t # ss) = s @ CHR ''/'' # join_slash (t # ss)"

text \<open>
  One segment of Node's \<open>normalizeString\<close>: an empty segment and \<open>.\<close> are dropped; \<open>..\<close>
  removes the last kept segment unless there is none or it is \<open>..\<close> itself, in which case it
  is kept when the path may climb above its start (a relative path) and dropped otherwise;
  any other segment is kept.
\<close>

definition normalize_segment :: "bool \<Rightarrow> string list \<Rightarrow> string \<Rightarrow> string list" where
  "normalize_segment allowAboveRoot res seg =
     (if seg = [] \<or> seg = ''.'' then res
      else if seg = ''..'' then
        (if res \<noteq> [] \<and> last res \<noteq> ''..'' then butlast res
         else if allowAboveRoot then res @ [''..''] else res)
      else res @ [seg])"

definition normalizeString :: "string \<Rightarrow> bool \<Rightarrow> string" where
  "normalizeString p allowAboveRoot =
     join_slash (foldl (normalize_segment allowAboveRoot) [] (split_slash p))"

text \<open>\<open>path.normalize(p)\<close>.\<close>

definition path_normalize :: "path \<Rightarrow> path" where
  "path_normalize p =
     (if p = [] then ''.''
      else
        (let isAbsolute = (hd p = CHR ''/'');
             trailingSeparator = (last p = CHR ''/'');
             p1 = normalizeString p (\<not> isAbsolute);
             p2 = (if p1 = [] \<and> \<not> isAbsolute then ''.'' else p1);
             p3 = (if p2 \<noteq> [] \<and> trailingSeparator then p2 @ ''/'' else p2)
         in if isAbsolute then CHR ''/'' # p3 else p3))"

text \<open>\<open>path.join(...args)\<close>: the non-empty arguments joined by \<open>/\<close>, then normalised.\<close>

definition path_join :: "string list \<Rightarrow> path" where
  "path_join args =
     (let joined = join_slash (filter (\<lambda>a. a \<noteq> []) args)
      in if joined = [] then ''.'' else path_normalize joined)"

subsection \<open>Buffers, binary strings and base64\<close>

text \<open>
  \<open>buf.toString('binary')\<close> (latin1): one code unit per byte, with the byte's value.
  \<open>Buffer.from(s, 'binary')\<close>: one byte per code unit, its low eight bits.
\<close>

definition toString_binary :: "buffer \<Rightarrow> binstr" where
  "toString_binary buf = map unat buf"

definition Buffer_from_binary :: "binstr \<Rightarrow> buffer" where
  "Buffer_from_binary s = map word_of_nat s"

definition base64_alphabet :: string where
  "base64_alphabet = ''ABCDEFGHIJKLMNOPQRSTUVWXYZabcdefghijklmnopqrstuvwxyz0123456789+/''"

definition base64_char :: "nat \<Rightarrow> char" where
  "base64_char i = base64_alphabet ! i"

text \<open>
  Modelled from the spec: \<open>buf.toString('base64')\<close> is Node's code, not the repository's,
  and the spec says of this step only that the bundle file is read ``into memory as
  binary'' and then parsed.  The definition is the encoding Node documents (RFC 4648 with
  padding): three bytes give four characters of the alphabet; one or two bytes left over
  give two or three characters, padded with \<open>=\<close> to four.
\<close>

fun toString_base64_nat :: "nat list \<Rightarrow> string" where
  "toString_base64_nat (b0 # b1 # b2 # bs) =
     base64_char (drop_bit 2 b0) #
     base64_char (push_bit 4 (b0 AND 3) OR drop_bit 4 b1) #
     base64_char (push_bit 2 (b1 AND 15) OR drop_bit 6 b2) #
     base64_char (b2 AND 63) # toString_base64_nat bs"
| "toString_base64_nat [b0, b1] =
     [base64_char (drop_bit 2 b0),
      base64_char (push_bit 4 (b0 AND 3) OR drop_bit 4 b1),
      base64_char (push_bit 2 (b1 AND 15)),
      CHR ''='']"
| "toString_base64_nat [b0] =
     [base64_char (drop_bit 2 b0),
      base64_char (push_bit 4 (b0 AND 3)),
      CHR ''='', CHR ''='']"
| "toString_base64_nat [] = []"

definition toString_base64 :: "buffer \<Rightarrow> string" where
  "toString_base64 buf = toString_base64_nat (map unat buf)"

text \<open>
  Modelled from the spec: \<open>forge.util.decode64(input)\<close> is node-forge's code, not the
  repository's; the definition follows the library's algorithm.  It first removes every
  character that is not of
  \<open>[A-Za-z0-9+/=]\<close>, then reads four characters at a time through the table \<open>_base64Idx\<close>
  (the position in the alphabet, and 64 for \<open>=\<close>) and emits one to three code units.
  Only characters that passed the filter reach the table.  Where the input ends inside a
  group, the missing entries are \<open>undefined\<close>: they differ from 64 and count as 0 in the
  bit operations.
\<close>

definition is_base64_char :: "char \<Rightarrow> bool" where
  "is_base64_char c =
     (let n = (of_char c :: nat)
      in (65 \<le> n \<and> n \<le> 90) \<or> (97 \<le> n \<and> n \<le> 122) \<or> (48 \<le> n \<and> n \<le> 57)
         \<or> c = CHR ''+'' \<or> c = CHR ''/'' \<or> c = CHR ''='')"

definition base64Idx :: "char \<Rightarrow> nat" where
  "base64Idx c =
     (let n = (of_char c :: nat)
      in if c = CHR ''+'' then 62
         else if c = CHR ''/'' then 63
         else if c = CHR ''='' then 64
         else if n \<le> 57 then n - 48 + 52
         else if n \<le> 90 then n - 65
         else n - 97 + 26)"

definition decode64_group :: "nat \<Rightarrow> nat \<Rightarrow> nat \<Rightarrow> nat \<Rightarrow> binstr" where
  "decode64_group enc1 enc2 enc3 enc4 =
     (push_bit 2 enc1 OR drop_bit 4 enc2) #
     (if enc3 \<noteq> 64
      then (push_bit 4 (enc2 AND 15) OR drop_bit 2 enc3) #
           (if enc4 \<noteq> 64 then [push_bit 6 (enc3 AND 3) OR enc4] else [])
      else [])"

fun decode64_loop :: "string \<Rightarrow> binstr" where
  "decode64_loop (c1 # c2 # c3 # c4 # cs) =
     decode64_group (base64Idx c1) (base64Idx c2) (base64Idx c3) (base64Idx c4) @ decode64_loop cs"
| "decode64_loop [c1, c2, c3] = decode64_group (base64Idx c1) (base64Idx c2) (base64Idx c3) 0"
| "decode64_loop [c1, c2] = decode64_group (base64Idx c1) (base64Idx c2) 0 0"
| "decode64_loop [c1] = decode64_group (base64Idx c1) 0 0 0"
| "decode64_loop [] = []"

definition decode64 :: "string \<Rightarrow> binstr" where
  "decode64 input = decode64_loop (filter is_base64_char input)"

text \<open>
  \<open>forge.util.hexToBytes(hex)\<close>: two hexadecimal digits per code unit (a leading single digit
  when the length is odd).  \<open>parseInt16\<close> is \<open>parseInt(s, 16)\<close> on a string of hexadecimal
  digits.
\<close>

definition hex_digit :: "char \<Rightarrow> nat" where
  "hex_digit c =
     (let n = (of_char c :: nat)
      in if n \<le> 57 then n - 48 else if n \<le> 70 then n - 55 else n - 87)"

definition parseInt16 :: "string \<Rightarrow> nat" where
  "parseInt16 s = foldl (\<lambda>n c. 16 * n + hex_digit c) 0 s"

fun hexToBytes_pairs :: "string \<Rightarrow> binstr" where
  "hexToBytes_pairs (a # b # cs) = parseInt16 [a, b] # hexToBytes_pairs cs"
| "hexToBytes_pairs [a] = [parseInt16 [a]]"
| "hexToBytes_pairs [] = []"

definition hexToBytes :: "string \<Rightarrow> binstr" where
  "hexToBytes hex =
     (case hex of
        [] \<Rightarrow> []
      | c # cs \<Rightarrow> if odd (length hex) then parseInt16 [c] # hexToBytes_pairs cs
                  else hexToBytes_pairs hex)"

subsection \<open>node-forge\<close>

text \<open>
  A safe bag of a parsed PKCS#12 bundle, as far as the script looks at it:
  \<open>bag.attributes.localKeyId\<close> (absent, or the list of the attribute's values) and \<open>bag.key\<close>
  (absent on a bag that carries no private key, a certificate bag for instance).
  The parsed bundle is \<open>safeContents[i].safeBags[j]\<close>.
\<close>

record 'k safeBag =
  localKeyId :: "binstr list option"
  key :: "'k option"

type_synonym 'k pkcs12 = "'k safeBag list list"

text \<open>
  \<open>p12.getBags({localKeyIdHex: hex})["localKeyId"]\<close>: the bags, in the bundle's order, one of
  whose \<open>localKeyId\<close> values is the identifier.
\<close>

definition getBags_localKeyIdHex :: "'k pkcs12 \<Rightarrow> string \<Rightarrow> 'k safeBag list" where
  "getBags_localKeyIdHex p12 hex =
     filter (\<lambda>bag. case localKeyId bag of
                     None \<Rightarrow> False
                   | Some vals \<Rightarrow> hexToBytes hex \<in> set vals)
            (concat p12)"

text \<open>
  The functions of node-forge that parse and compute, as parameters: \<open>forge.asn1.fromDer\<close>
  and \<open>forge.pkcs12.pkcs12FromAsn1\<close> (either may throw), the SHA-512 digest of a message
  given as a binary string, and the RSASSA-PKCS1-v1_5 signature of a digest under a key
  (which may throw).  \<open>'a\<close> is the type of ASN.1 objects, \<open>'k\<close> of private keys, \<open>'e\<close> of the
  library's exceptions.
\<close>

record ('a, 'k, 'e) forge =
  asn1_fromDer :: "binstr \<Rightarrow> 'e + 'a"
  pkcs12FromAsn1 :: "'a \<Rightarrow> string \<Rightarrow> 'e + 'k pkcs12"
  sha512_digest :: "binstr \<Rightarrow> binstr"
  rsassa_pkcs1_v1_5 :: "'k \<Rightarrow> binstr \<Rightarrow> 'e + binstr"

text \<open>
  A message digest object \<open>md\<close> is the message it has been given so far:
  \<open>forge.md.sha512.create()\<close> starts empty, \<open>md.update(s)\<close> appends.  \<open>privateKey.sign(md)\<close>
  (default scheme) signs \<open>md.digest()\<close>.
\<close>

definition sha512_create :: binstr where
  "sha512_create = []"

definition md_update :: "binstr \<Rightarrow> binstr \<Rightarrow> binstr" where
  "md_update md s = md @ s"

definition privateKey_sign :: "('a, 'k, 'e) forge \<Rightarrow> 'k \<Rightarrow> binstr \<Rightarrow> 'e + binstr" where
  "privateKey_sign lib k md = rsassa_pkcs1_v1_5 lib k (sha512_digest lib md)"

subsection \<open>The script\<close>

definition localKeyIdHex :: string where
  "localKeyIdHex = ''6FEFEE4A93634B95DD82977143D69665CA9180D2''"

text \<open>A value of \<open>process.env\<close> is falsy when it is absent or the empty string.\<close>

definition falsy :: "string option \<Rightarrow> bool" where
  "falsy v = (case v of None \<Rightarrow> True | Some s \<Rightarrow> s = [])"

text \<open>
  \<open>getPrivateKey()\<close>.  The result \<open>Inr None\<close> is the value \<open>undefined\<close> returned as the key
  (the first matching bag has no \<open>key\<close>).
\<close>

definition getPrivateKey :: "('a, 'k, 'e) forge \<Rightarrow> world \<Rightarrow> ('e js_error + 'k option) \<times> world" where
  "getPrivateKey lib w =
     (let lnk = env w ''LINUX_CSC_LINK'';
          pass = env w ''LINUX_CSC_KEY_PASSWORD''
      in if falsy lnk \<or> falsy pass then (Inl MissingEnvError, w)
         else
           case readFileSync w (the lnk) of
             (Inl e, w1) \<Rightarrow> (Inl e, w1)
           | (Inr buf, w1) \<Rightarrow>
               (let p12b64 = toString_base64 buf;
                    p12Der = decode64 p12b64
                in case asn1_fromDer lib p12Der of
                     Inl e \<Rightarrow> (Inl (ForgeError e), w1)
                   | Inr p12Asn1 \<Rightarrow>
                       (case pkcs12FromAsn1 lib p12Asn1 (the pass) of
                          Inl e \<Rightarrow> (Inl (ForgeError e), w1)
                        | Inr p12 \<Rightarrow>
                            (case getBags_localKeyIdHex p12 localKeyIdHex of
                               [] \<Rightarrow> (Inl (TypeError ''key''), w1)
                             | bag0 # _ \<Rightarrow> (Inr (key bag0), w1)))))"

text \<open>
  The path \<open>signer\<close> writes the signature to, as a function of \<open>filePath\<close>:
  \<open>path.join(dir, filename + '-sig.bin')\<close> with \<open>dir = path.dirname(filePath)\<close> and
  \<open>filename = path.basename(filePath)\<close>.
\<close>

definition sigOutPath :: "path \<Rightarrow> path" where
  "sigOutPath filePath =
     (let dir = dirname filePath;
          filename = basename filePath
      in path_join [dir, filename @ ''-sig.bin''])"

text \<open>\<open>signer(filePath)\<close>, statement by statement.\<close>

definition signer :: "('a, 'k, 'e) forge \<Rightarrow> world \<Rightarrow> path \<Rightarrow> ('e js_error + unit) \<times> world" where
  "signer lib w filePath =
     (let w0 = console_log w [''Signing'', basename filePath, ''...''];
          dir = dirname filePath;
          filename = basename filePath
      in case readFileSync w0 filePath of
           (Inl e, w1) \<Rightarrow> (Inl e, w1)
         | (Inr fileData, w1) \<Rightarrow>
             (let sigOut = path_join [dir, filename @ ''-sig.bin'']
              in case getPrivateKey lib w1 of
                   (Inl e, w2) \<Rightarrow> (Inl e, w2)
                 | (Inr privateKey, w2) \<Rightarrow>
                     (let md = md_update sha512_create (toString_binary fileData)
                      in case privateKey of
                           None \<Rightarrow> (Inl (TypeError ''sign''), w2)
                         | Some k \<Rightarrow>
                             (case privateKey_sign lib k md of
                                Inl e \<Rightarrow> (Inl (ForgeError e), w2)
                              | Inr s \<Rightarrow>
                                  (let sig = Buffer_from_binary s
                                   in writeFileSync w2 sigOut sig)))))"

subsection \<open>Auxiliary notions for the statements\<close>

text \<open>
  The state once \<open>signer\<close> has printed its progress line and attempted to read the target
  file: only the trace has grown.
\<close>

definition w_read :: "world \<Rightarrow> path \<Rightarrow> world" where
  "w_read w filePath =
     w\<lparr>trace := trace w @ [ConsoleLog [''Signing'', basename filePath, ''...''], ReadFile filePath]\<rparr>"

text \<open>
  The state in which \<open>signer\<close> reaches its last statement: the target file and the bundle have
  been read (the trace says so), and nothing else differs from the state \<open>signer\<close> was
  called in.
\<close>

definition w_keyed :: "('a, 'k, 'e) forge \<Rightarrow> world \<Rightarrow> path \<Rightarrow> world" where
  "w_keyed lib w filePath = snd (getPrivateKey lib (w_read w filePath))"

text \<open>The writes among the events of a trace.\<close>

fun is_write :: "io_event \<Rightarrow> bool" where
  "is_write (WriteFile p content) = True"
| "is_write _ = False"

subsection \<open>Concrete inputs\<close>

text \<open>
  To run the script on concrete inputs, a small instance of the library parameters.  A
  bundle is a list of numbers, one per bag: \<open>1\<close> is a key bag with the script's
  \<open>localKeyId\<close> and the key \<open>7\<close>, \<open>2\<close> is a bag with that \<open>localKeyId\<close> and no key (a
  certificate bag), any other \<open>b\<close> is a key bag with another identifier.  The empty bundle
  does not parse, and the bundle opens with the passphrase \<open>secret\<close> only.  The digest and
  the signature are toy functions.
\<close>

definition demo_bag :: "nat \<Rightarrow> nat safeBag" where
  "demo_bag b =
     (if b = 1 then \<lparr>localKeyId = Some [hexToBytes localKeyIdHex], key = Some 7\<rparr>
      else if b = 2 then \<lparr>localKeyId = Some [hexToBytes localKeyIdHex], key = None\<rparr>
      else \<lparr>localKeyId = Some [[b]], key = Some b\<rparr>)"

definition demo_forge :: "(binstr, nat, string) forge" where
  "demo_forge =
     \<lparr>asn1_fromDer = (\<lambda>der. if der = [] then Inl ''Too few bytes to parse DER'' else Inr der),
      pkcs12FromAsn1 = (\<lambda>a pass. if pass = ''secret'' then Inr [map demo_bag a]
                                  else Inl ''Invalid password?''),
      sha512_digest = (\<lambda>m. [length m, sum_list m mod 256]),
      rsassa_pkcs1_v1_5 = (\<lambda>k d. Inr (map (\<lambda>x. (x + k) mod 256) d))\<rparr>"

text \<open>
  A process with the two environment variables as given and the listed files, named by
  their paths in normal form.  There are no links: two path texts name the same file when
  \<open>path.normalize\<close> gives them the same normal form.  Every write completes, and no I/O has
  been done yet.
\<close>

definition demo_world :: "string option \<Rightarrow> string option \<Rightarrow> (path \<times> buffer) list \<Rightarrow> world" where
  "demo_world lnk pass fs =
     \<lparr>env = (\<lambda>_. None)(''LINUX_CSC_LINK'' := lnk, ''LINUX_CSC_KEY_PASSWORD'' := pass),
      files = (\<lambda>p. map_of fs (path_normalize p)),
      canonical = path_normalize,
      on_write = (\<lambda>_. Completes),
      trace = []\<rparr>"

text \<open>
  The process \<open>w\<close> with a symbolic link at the path \<open>l\<close> that points to the path \<open>t\<close>: every
  text that named the file at \<open>l\<close> now names the file at \<open>t\<close>, and reads what \<open>t\<close> reads.
\<close>

definition demo_link :: "path \<Rightarrow> path \<Rightarrow> world \<Rightarrow> world" where
  "demo_link l t w =
     w\<lparr>files := (\<lambda>p. if canonical w p = canonical w l then files w t else files w p),
        canonical := (\<lambda>p. if canonical w p = canonical w l then canonical w t else canonical w p)\<rparr>"

section \<open>Properties\<close>

subsection \<open>Base64: decoding what was encoded\<close>

lemma bit_byte_lt: "b < 256 \<Longrightarrow> bit (b::nat) n \<Longrightarrow> n < 8"
proof -
  assume "b < 256" and b: "bit b n"
  then have "take_bit 8 b = b" by (simp add: take_bit_nat_eq_self)
  with b have "bit (take_bit 8 b) n" by simp
  then show ?thesis unfolding bit_take_bit_iff by simp
qed

lemma bit_3_iff: "bit (3::nat) n \<longleftrightarrow> n < 2"
  using bit_mask_iff[of 2 n, where 'a=nat] by (simp add: mask_eq_exp_minus_1)
lemma bit_15_iff: "bit (15::nat) n \<longleftrightarrow> n < 4"
  using bit_mask_iff[of 4 n, where 'a=nat] by (simp add: mask_eq_exp_minus_1)
lemma bit_63_iff: "bit (63::nat) n \<longleftrightarrow> n < 6"
  using bit_mask_iff[of 6 n, where 'a=nat] by (simp add: mask_eq_exp_minus_1)

lemma Suc_Suc_diff_2: "2 \<le> n \<Longrightarrow> Suc (Suc (n - 2)) = n"
  by arith

lemma decode_byte0: 
  assumes "b0 < 256" "b1 < 256"
  shows "push_bit 2 (drop_bit 2 b0) OR drop_bit 4 (push_bit 4 (b0 AND 3) OR drop_bit 4 b1) = (b0::nat)"
proof (rule bit_eqI)
  fix n
  have *: "\<not> bit b1 (4 + (4 + n))"
    using bit_byte_lt[OF assms(2), of "4 + (4 + n)"] by auto
  show "bit (push_bit 2 (drop_bit 2 b0) OR drop_bit 4 (push_bit 4 (b0 AND 3) OR drop_bit 4 b1)) n = bit b0 n"
    unfolding bit_or_iff bit_and_iff bit_push_bit_iff_nat bit_drop_bit_eq bit_3_iff o_def
    using * by (cases "n < 2") (auto simp: not_less Suc_Suc_diff_2)
qed

lemma decode_byte1: 
  assumes "b1 < 256" "b2 < 256"
  shows "push_bit 4 ((push_bit 4 (b0 AND 3) OR drop_bit 4 b1) AND 15) OR drop_bit 2 (push_bit 2 (b1 AND 15) OR drop_bit 6 b2) = (b1::nat)"
proof (rule bit_eqI)
  fix n
  have *: "\<not> bit b2 (6 + (2 + n))" "bit b1 n \<longrightarrow> n < 8"
    using bit_byte_lt[OF assms(2), of "6 + (2 + n)"] bit_byte_lt[OF assms(1), of n] by auto
  show "bit (push_bit 4 ((push_bit 4 (b0 AND 3) OR drop_bit 4 b1) AND 15) OR drop_bit 2 (push_bit 2 (b1 AND 15) OR drop_bit 6 b2)) n = bit b1 n"
    unfolding bit_or_iff bit_and_iff bit_push_bit_iff_nat bit_drop_bit_eq bit_3_iff bit_15_iff bit_63_iff o_def
    using * by (cases "n < 4") (auto simp: not_less)
qed

lemma decode_byte2: 
  assumes "b2 < 256"
  shows "push_bit 6 ((push_bit 2 (b1 AND 15) OR drop_bit 6 b2) AND 3) OR (b2 AND 63) = (b2::nat)"
proof (rule bit_eqI)
  fix n
  have *: "bit b2 n \<longrightarrow> n < 8"
    using bit_byte_lt[OF assms(1), of n] by auto
  show "bit (push_bit 6 ((push_bit 2 (b1 AND 15) OR drop_bit 6 b2) AND 3) OR (b2 AND 63)) n = bit b2 n"
    unfolding bit_or_iff bit_and_iff bit_push_bit_iff_nat bit_drop_bit_eq bit_3_iff bit_15_iff bit_63_iff o_def
    using * by (cases "n < 6") (auto simp: not_less)
qed

lemma lt_64I:
  fixes x :: nat
  assumes "\<And>n. bit x n \<Longrightarrow> n < 6"
  shows "x < 64"
proof -
  have "take_bit 6 x = x"
    by (rule bit_eqI) (auto simp: bit_simps dest: assms)
  then have "x mod 64 = x" by (simp add: take_bit_eq_mod)
  moreover have "x mod 64 < 64" by simp
  ultimately show ?thesis by simp
qed

lemma sextet1_lt: "b0 < 256 \<Longrightarrow> drop_bit 2 (b0::nat) < 64"
proof (rule lt_64I)
  fix n
  assume "b0 < 256" and "bit (drop_bit 2 b0) n"
  then show "n < 6"
    unfolding bit_drop_bit_eq o_def
    by (auto dest: bit_byte_lt)
qed

lemma sextet2_lt: "b1 < 256 \<Longrightarrow> push_bit 4 (b0 AND 3) OR drop_bit 4 (b1::nat) < 64"
proof (rule lt_64I)
  fix n
  assume "b1 < 256" and "bit (push_bit 4 (b0 AND 3) OR drop_bit 4 b1) n"
  then show "n < 6"
    unfolding bit_or_iff bit_and_iff bit_push_bit_iff_nat bit_drop_bit_eq bit_3_iff o_def
    by (auto dest: bit_byte_lt)
qed

lemma sextet3_lt: "b2 < 256 \<Longrightarrow> push_bit 2 (b1 AND 15) OR drop_bit 6 (b2::nat) < 64"
proof (rule lt_64I)
  fix n
  assume "b2 < 256" and "bit (push_bit 2 (b1 AND 15) OR drop_bit 6 b2) n"
  then show "n < 6"
    unfolding bit_or_iff bit_and_iff bit_push_bit_iff_nat bit_drop_bit_eq bit_15_iff o_def
    by (auto dest: bit_byte_lt)
qed

lemma sextet4_lt: "(b2::nat) AND 63 < 64"
proof (rule lt_64I)
  fix n
  assume "bit (b2 AND 63) n"
  then show "n < 6"
    unfolding bit_and_iff bit_63_iff by simp
qed

lemma sextet2_pad_lt: "push_bit 4 ((b0::nat) AND 3) < 64"
  using sextet2_lt[of 0 b0] by simp

lemma sextet3_pad_lt: "push_bit 2 ((b1::nat) AND 15) < 64"
  using sextet3_lt[of 0 b1] by simp


lemma base64_table_list:
  "list_all (\<lambda>i. base64Idx (base64_char i) = i \<and> is_base64_char (base64_char i)) [0..<64]"
  by (simp add: upt_rec base64Idx_def base64_char_def base64_alphabet_def is_base64_char_def)

lemma base64_table_lt: "i < 64 \<Longrightarrow> base64Idx (base64_char i) = i \<and> is_base64_char (base64_char i)"
proof -
  assume "i < 64"
  then have "i \<in> set [0..<64]" by simp
  then show ?thesis
    using base64_table_list unfolding list_all_iff by blast
qed

lemma base64Idx_char: "i < 64 \<Longrightarrow> base64Idx (base64_char i) = i"
  by (simp add: base64_table_lt)

lemma is_base64_char_char: "i < 64 \<Longrightarrow> is_base64_char (base64_char i)"
  by (simp add: base64_table_lt)

lemma is_base64_char_pad: "is_base64_char CHR ''=''"
  by (simp add: is_base64_char_def)

lemma base64Idx_pad: "base64Idx CHR ''='' = 64"
  by (simp add: base64Idx_def)

lemma filter_toString_base64_nat:
  "\<forall>b \<in> set bs. b < 256 \<Longrightarrow> filter is_base64_char (toString_base64_nat bs) = toString_base64_nat bs"
proof (induction bs rule: toString_base64_nat.induct)
  case (1 b0 b1 b2 bs)
  then have b: "b0 < 256" "b1 < 256" "b2 < 256"
    and rest: "filter is_base64_char (toString_base64_nat bs) = toString_base64_nat bs"
    by simp_all
  show ?case
    by (simp only: toString_base64_nat.simps filter.simps rest if_True
          is_base64_char_char[OF sextet1_lt[OF b(1)]] is_base64_char_char[OF sextet2_lt[OF b(2)]]
          is_base64_char_char[OF sextet3_lt[OF b(3)]] is_base64_char_char[OF sextet4_lt])
next
  case (2 b0 b1)
  then have b: "b0 < 256" "b1 < 256" by simp_all
  show ?case
    by (simp only: toString_base64_nat.simps filter.simps if_True is_base64_char_pad
          is_base64_char_char[OF sextet1_lt[OF b(1)]] is_base64_char_char[OF sextet2_lt[OF b(2)]]
          is_base64_char_char[OF sextet3_pad_lt])
next
  case (3 b0)
  then have b: "b0 < 256" by simp
  show ?case
    by (simp only: toString_base64_nat.simps filter.simps if_True is_base64_char_pad
          is_base64_char_char[OF sextet1_lt[OF b]] is_base64_char_char[OF sextet2_pad_lt])
next
  case 4
  show ?case by simp
qed

lemma decode64_group_full:
  assumes "b0 < 256" "b1 < 256" "b2 < 256"
  shows "decode64_group (drop_bit 2 b0) (push_bit 4 (b0 AND 3) OR drop_bit 4 b1)
           (push_bit 2 (b1 AND 15) OR drop_bit 6 b2) (b2 AND 63) = [b0, b1, b2]"
proof -
  have "push_bit 2 (b1 AND 15) OR drop_bit 6 b2 \<noteq> 64" "b2 AND 63 \<noteq> 64"
    using sextet3_lt[OF assms(3), of b1] sextet4_lt[of b2] by simp_all
  then show ?thesis
    unfolding decode64_group_def
    by (simp only: if_True if_False not_False_eq_True decode_byte0[OF assms(1,2)] decode_byte1[OF assms(2,3)] decode_byte2[OF assms(3)] simp_thms)
qed

lemma decode64_group_two:
  assumes "b0 < 256" "b1 < 256"
  shows "decode64_group (drop_bit 2 b0) (push_bit 4 (b0 AND 3) OR drop_bit 4 b1)
           (push_bit 2 (b1 AND 15)) 64 = [b0, b1]"
proof -
  have "push_bit 2 (b1 AND 15) \<noteq> 64"
    using sextet3_pad_lt[of b1] by simp
  moreover have "push_bit 4 ((push_bit 4 (b0 AND 3) OR drop_bit 4 b1) AND 15) OR drop_bit 2 (push_bit 2 (b1 AND 15)) = b1"
    using decode_byte1[OF assms(2), of 0 b0] by simp
  ultimately show ?thesis
    unfolding decode64_group_def
    by (simp only: if_True if_False not_False_eq_True decode_byte0[OF assms(1,2)] simp_thms)
qed

lemma decode64_group_one:
  assumes "b0 < 256"
  shows "decode64_group (drop_bit 2 b0) (push_bit 4 (b0 AND 3)) 64 64 = [b0]"
proof -
  have "push_bit 2 (drop_bit 2 b0) OR drop_bit 4 (push_bit 4 (b0 AND 3)) = b0"
    using decode_byte0[OF assms, of 0] by simp
  then show ?thesis
    unfolding decode64_group_def
    by (simp only: if_True if_False simp_thms)
qed

lemma decode64_loop_toString_base64_nat:
  "\<forall>b \<in> set bs. b < 256 \<Longrightarrow> decode64_loop (toString_base64_nat bs) = bs"
proof (induction bs rule: toString_base64_nat.induct)
  case (1 b0 b1 b2 bs)
  then have b: "b0 < 256" "b1 < 256" "b2 < 256" and rest: "decode64_loop (toString_base64_nat bs) = bs"
    by simp_all
  show ?case
    by (simp only: toString_base64_nat.simps decode64_loop.simps base64Idx_char
          sextet1_lt[OF b(1)] sextet2_lt[OF b(2)] sextet3_lt[OF b(3)] sextet4_lt decode64_group_full[OF b] rest append.simps)
next
  case (2 b0 b1)
  then have b: "b0 < 256" "b1 < 256" by simp_all
  show ?case
    by (simp only: toString_base64_nat.simps decode64_loop.simps base64Idx_char base64Idx_pad
          sextet1_lt[OF b(1)] sextet2_lt[OF b(2)] sextet3_pad_lt decode64_group_two[OF b] append.simps append_Nil2)
next
  case (3 b0)
  then have b: "b0 < 256" by simp
  show ?case
    by (simp only: toString_base64_nat.simps decode64_loop.simps base64Idx_char base64Idx_pad
          sextet1_lt[OF b] sextet2_pad_lt decode64_group_one[OF b] append.simps append_Nil2)
next
  case 4
  show ?case by simp
qed

lemma decode64_toString_base64: "decode64 (toString_base64 buf) = toString_binary buf"
proof -
  have "unat b < 2 ^ LENGTH(8)" for b :: byte
    by (rule unsigned_less)
  then have "unat b < 256" for b :: byte
    by simp
  then have "\<forall>b \<in> set (map unat buf). b < 256"
    by simp
  then show ?thesis
    by (simp add: decode64_def toString_base64_def toString_binary_def
          filter_toString_base64_nat decode64_loop_toString_base64_nat)
qed

lemma Buffer_from_binary_toString_binary: "Buffer_from_binary (toString_binary buf) = buf"
  by (simp add: Buffer_from_binary_def toString_binary_def map_idI)

subsection \<open>Paths\<close>

lemma split_slash_not_Nil: "split_slash p \<noteq> []"
  by (induction p) (auto split: list.splits)

lemma split_slash_no_slash: "CHR ''/'' \<notin> set s \<Longrightarrow> split_slash s = [s]"
  by (induction s) auto

lemma split_slash_append:
  "split_slash (a @ CHR ''/'' # b) = split_slash a @ split_slash b"
proof (induction a)
  case Nil
  show ?case by simp
next
  case (Cons c a)
  obtain s ss where "split_slash a = s # ss"
    using split_slash_not_Nil[of a] by (cases "split_slash a") auto
  with Cons show ?case by simp
qed

lemma join_slash_snoc:
  "join_slash (st @ [g]) = (if st = [] then g else join_slash st @ CHR ''/'' # g)"
  by (induction st rule: join_slash.induct) auto

lemma basename_no_slash: "CHR ''/'' \<notin> set (basename p)"
  by (auto simp: basename_def dest: set_takeWhileD)

lemma dirname_not_Nil: "dirname p \<noteq> []"
  by (simp add: dirname_def Let_def split: list.split)

lemma sig_file_name:
  "CHR ''/'' \<notin> set ((basename p @ ''-sig.bin''))" "(basename p @ ''-sig.bin'') \<noteq> []" "(basename p @ ''-sig.bin'') \<noteq> ''.''" "(basename p @ ''-sig.bin'') \<noteq> ''..''"
  "last ((basename p @ ''-sig.bin'')) \<noteq> CHR ''/''"
proof -
  show "CHR ''/'' \<notin> set ((basename p @ ''-sig.bin''))"
    using basename_no_slash[of p] by simp
  have "length ((basename p @ ''-sig.bin'')) \<ge> 8" by simp
  then show "(basename p @ ''-sig.bin'') \<noteq> []" "(basename p @ ''-sig.bin'') \<noteq> ''.''" "(basename p @ ''-sig.bin'') \<noteq> ''..''"
    by auto
  show "last ((basename p @ ''-sig.bin'')) \<noteq> CHR ''/''" by simp
qed

lemma normalize_segment_plain:
  "g \<noteq> [] \<Longrightarrow> g \<noteq> ''.'' \<Longrightarrow> g \<noteq> ''..'' \<Longrightarrow> normalize_segment a st g = st @ [g]"
  by (simp add: normalize_segment_def)

text \<open>The path of the signature file: the normalised directory, then the file name with its suffix.\<close>

lemma normalize_dir_name:
  assumes d: "d \<noteq> []"
    and g: "CHR ''/'' \<notin> set g" "g \<noteq> []" "g \<noteq> ''.''" "g \<noteq> ''..''"
  shows "path_normalize (d @ CHR ''/'' # g) =
     (if hd d = CHR ''/'' then ''/'' else '''') @
     join_slash (foldl (normalize_segment (hd d \<noteq> CHR ''/'')) [] (split_slash d) @ [g])"
proof -
  let ?q = "d @ CHR ''/'' # g"
  let ?st = "foldl (normalize_segment (hd d \<noteq> CHR ''/'')) [] (split_slash d)"
  have hd: "hd ?q = hd d" using d by simp
  have last: "last ?q \<noteq> CHR ''/''" using g by (cases g rule: rev_cases) auto
  have "normalizeString ?q (hd d \<noteq> CHR ''/'') = join_slash (?st @ [g])"
    using g by (simp add: normalizeString_def split_slash_append split_slash_no_slash normalize_segment_plain)
  moreover have "join_slash (?st @ [g]) \<noteq> []"
    using g by (simp add: join_slash_snoc)
  ultimately show ?thesis
    using hd last by (cases "hd d = CHR ''/''") (simp_all add: path_normalize_def Let_def)
qed

lemma sigOutPath_eq:
  "sigOutPath p =
     (if hd (dirname p) = CHR ''/'' then ''/'' else '''') @
     join_slash (foldl (normalize_segment (hd (dirname p) \<noteq> CHR ''/'')) [] (split_slash (dirname p))
                 @ [basename p @ ''-sig.bin''])"
proof -
  have "sigOutPath p = path_normalize (dirname p @ CHR ''/'' # (basename p @ ''-sig.bin''))"
    using dirname_not_Nil[of p] sig_file_name(2)[of p]
    by (simp add: sigOutPath_def path_join_def Let_def)
  then show ?thesis
    using normalize_dir_name[OF dirname_not_Nil sig_file_name(1-4), of p p]
    by simp
qed

lemma rev_name_Cons:
  assumes "g \<noteq> []" "CHR ''/'' \<notin> set g"
  obtains c r where "rev g = c # r" "c \<noteq> CHR ''/''"
proof -
  obtain c r where cr: "rev g = c # r"
    using assms(1) by (cases "rev g") auto
  then have "c \<in> set (rev g)" by simp
  then have "c \<noteq> CHR ''/''" using assms(2) by auto
  with cr show ?thesis by (rule that)
qed

lemma scan_no_slash:
  assumes "CHR ''/'' \<notin> set xs"
  shows "dropWhile (\<lambda>c. c \<noteq> CHR ''/'') (dropWhile (\<lambda>c. c = CHR ''/'') xs) = []"
proof -
  have "dropWhile (\<lambda>c. c = CHR ''/'') xs = xs"
    using assms by (cases xs) auto
  moreover have "dropWhile (\<lambda>c. c \<noteq> CHR ''/'') xs = []"
    using assms by (auto simp: dropWhile_eq_Nil_conv)
  ultimately show ?thesis by simp
qed

lemma basename_prefix_name:
  assumes "CHR ''/'' \<notin> set g" "g \<noteq> []" "x = [] \<or> last x = CHR ''/''"
  shows "basename (x @ g) = g"
proof -
  obtain c g' where g': "rev g = c # g'" "c \<noteq> CHR ''/''"
    using assms(2,1) by (rule rev_name_Cons)
  have tw: "takeWhile (\<lambda>c. c \<noteq> CHR ''/'') (rev g @ rev x) = rev g"
  proof (cases x rule: rev_cases)
    case Nil
    then show ?thesis using assms(1) by (auto simp: takeWhile_eq_all_conv)
  next
    case (snoc x' c')
    with assms(3) have "c' = CHR ''/''" by simp
    with snoc show ?thesis using assms(1) by (auto simp: takeWhile_tail takeWhile_eq_all_conv)
  qed
  have "dropWhile (\<lambda>c. c = CHR ''/'') (rev g @ rev x) = rev g @ rev x"
    using g' by simp
  then show ?thesis using tw by (simp add: basename_def)
qed

lemma basename_sigOutPath: "basename (sigOutPath p) = basename p @ ''-sig.bin''"
proof -
  let ?st = "foldl (normalize_segment (hd (dirname p) \<noteq> CHR ''/'')) [] (split_slash (dirname p))"
  let ?x = "(if hd (dirname p) = CHR ''/'' then ''/'' else '''') @ (if ?st = [] then [] else join_slash ?st @ ''/'')"
  have "sigOutPath p = ?x @ (basename p @ ''-sig.bin'')"
    by (simp add: sigOutPath_eq join_slash_snoc)
  moreover have "?x = [] \<or> last ?x = CHR ''/''" by simp
  ultimately show ?thesis
    using basename_prefix_name[OF sig_file_name(1,2), of ?x p] by simp
qed

lemma sigOutPath_neq: "sigOutPath p \<noteq> p"
proof
  assume "sigOutPath p = p"
  then have "basename p = basename p @ ''-sig.bin''"
    using basename_sigOutPath[of p] by simp
  then show False by simp
qed


lemma dirname_name:
  assumes "f \<noteq> []" "CHR ''/'' \<notin> set f"
  shows "dirname f = ''.''"
proof -
  obtain c0 cs where f: "f = c0 # cs" using assms(1) by (cases f) auto
  from assms(2) have c0: "c0 \<noteq> CHR ''/''" and cs: "CHR ''/'' \<notin> set (rev cs)"
    unfolding f by auto
  have scan: "dropWhile (\<lambda>c. c \<noteq> CHR ''/'') (dropWhile (\<lambda>c. c = CHR ''/'') (rev cs)) = []"
    using cs by (rule scan_no_slash)
  show ?thesis
    unfolding f dirname_def list.case Let_def scan using c0 by simp
qed

lemma scan_name:
  assumes "f \<noteq> []" "CHR ''/'' \<notin> set f"
  shows "dropWhile (\<lambda>c. c \<noteq> CHR ''/'') (dropWhile (\<lambda>c. c = CHR ''/'') (rev f @ CHR ''/'' # r)) = CHR ''/'' # r"
proof -
  obtain c g where g: "rev f = c # g" "c \<noteq> CHR ''/''"
    using assms by (rule rev_name_Cons)
  then have 1: "dropWhile (\<lambda>c. c = CHR ''/'') (rev f @ CHR ''/'' # r) = rev f @ CHR ''/'' # r"
    by simp
  have "x \<noteq> CHR ''/''" if "x \<in> set (rev f)" for x
    using that assms(2) by auto
  then have "dropWhile (\<lambda>c. c \<noteq> CHR ''/'') (rev f @ CHR ''/'' # r) = dropWhile (\<lambda>c. c \<noteq> CHR ''/'') (CHR ''/'' # r)"
    by (rule dropWhile_append2)
  then have 2: "dropWhile (\<lambda>c. c \<noteq> CHR ''/'') (rev f @ CHR ''/'' # r) = CHR ''/'' # r"
    by simp
  show ?thesis unfolding 1 2 ..
qed

lemma dirname_root_name:
  assumes "f \<noteq> []" "CHR ''/'' \<notin> set f"
  shows "dirname (CHR ''/'' # f) = ''/''"
proof -
  from assms(2) have "CHR ''/'' \<notin> set (rev f)" by simp
  then have scan: "dropWhile (\<lambda>c. c \<noteq> CHR ''/'') (dropWhile (\<lambda>c. c = CHR ''/'') (rev f)) = []"
    by (rule scan_no_slash)
  show ?thesis
    unfolding dirname_def list.case Let_def scan by simp
qed

lemma dirname_dir_name:
  assumes "f \<noteq> []" "CHR ''/'' \<notin> set f" "y \<noteq> []" "y \<noteq> ''/''"
  shows "dirname (y @ CHR ''/'' # f) = y"
proof -
  obtain c0 cs where y: "y = c0 # cs" using assms(3) by (cases y) auto
  have scan: "dropWhile (\<lambda>c. c \<noteq> CHR ''/'') (dropWhile (\<lambda>c. c = CHR ''/'') (rev (cs @ CHR ''/'' # f))) = CHR ''/'' # rev cs"
    using scan_name[OF assms(1,2), of "rev cs"] by simp
  have "\<not> (c0 = CHR ''/'' \<and> rev cs = [])"
    using assms(4) unfolding y by simp
  then show ?thesis
    unfolding y append_Cons dirname_def list.case Let_def scan by simp
qed


lemma join_slash_not_Nil:
  "ss \<noteq> [] \<Longrightarrow> \<forall>s \<in> set ss. s \<noteq> [] \<Longrightarrow> join_slash ss \<noteq> []"
  by (induction ss rule: join_slash.induct) auto

lemma basename_decomp:
  assumes "p \<noteq> []" "last p \<noteq> CHR ''/''"
  obtains x where "p = x @ basename p" "x = [] \<or> last x = CHR ''/''"
    "basename p \<noteq> []" "CHR ''/'' \<notin> set (basename p)"
proof -
  let ?r = "rev p"
  obtain c r where cr: "?r = c # r" "c \<noteq> CHR ''/''"
    using assms by (cases p rule: rev_cases) auto
  then have keep: "dropWhile (\<lambda>c. c = CHR ''/'') ?r = ?r" by simp
  let ?x = "rev (dropWhile (\<lambda>c. c \<noteq> CHR ''/'') ?r)"
  have b: "basename p = rev (takeWhile (\<lambda>c. c \<noteq> CHR ''/'') ?r)"
    unfolding basename_def keep ..
  have "rev ?r = ?x @ basename p"
    unfolding b rev_append[symmetric] takeWhile_dropWhile_id ..
  then have 1: "p = ?x @ basename p" by simp
  have 2: "?x = [] \<or> last ?x = CHR ''/''"
  proof (cases "dropWhile (\<lambda>c. c \<noteq> CHR ''/'') ?r")
    case Nil
    show ?thesis unfolding Nil by simp
  next
    case (Cons d ds)
    have "dropWhile (\<lambda>c. c \<noteq> CHR ''/'') ?r \<noteq> []"
      unfolding Cons by simp
    from hd_dropWhile[OF this] have "d = CHR ''/''"
      unfolding Cons by simp
    then show ?thesis unfolding Cons by simp
  qed
  have 3: "basename p \<noteq> []"
    unfolding b using cr by simp
  from 1 2 3 basename_no_slash[of p] show ?thesis by (rule that)
qed

lemma dirname_root_root_name:
  assumes "f \<noteq> []" "CHR ''/'' \<notin> set f"
  shows "dirname (''//'' @ f) = ''//''"
proof -
  have scan: "dropWhile (\<lambda>c. c \<noteq> CHR ''/'') (dropWhile (\<lambda>c. c = CHR ''/'') (rev (CHR ''/'' # f))) = ''/''"
    using scan_name[OF assms, of "[]"] by simp
  show ?thesis
    unfolding append_Cons append_Nil dirname_def list.case Let_def scan by simp
qed

lemma fold_dirname:
  assumes "f \<noteq> []" "CHR ''/'' \<notin> set f"
  shows "foldl (normalize_segment a) [] (split_slash (dirname f)) = []"
    and "foldl (normalize_segment a) [] (split_slash (dirname (y @ CHR ''/'' # f))) =
         foldl (normalize_segment a) [] (split_slash y)"
proof -
  show "foldl (normalize_segment a) [] (split_slash (dirname f)) = []"
    unfolding dirname_name[OF assms] by (simp add: normalize_segment_def)
  show "foldl (normalize_segment a) [] (split_slash (dirname (y @ CHR ''/'' # f))) =
         foldl (normalize_segment a) [] (split_slash y)"
  proof (cases "y = [] \<or> y = ''/''")
    case False
    then show ?thesis using dirname_dir_name[OF assms, of y] by simp
  next
    case True
    then show ?thesis
    proof
      assume "y = []"
      then show ?thesis
        using dirname_root_name[OF assms] by (simp add: normalize_segment_def)
    next
      assume "y = ''/''"
      then show ?thesis
        using dirname_root_root_name[OF assms] by (simp add: normalize_segment_def)
    qed
  qed
qed

lemma hd_dirname:
  assumes "p \<noteq> []"
  shows "hd (dirname p) = CHR ''/'' \<longleftrightarrow> hd p = CHR ''/''"
proof -
  obtain c0 cs where p: "p = c0 # cs" using assms by (cases p) auto
  show ?thesis
  proof (cases "dropWhile (\<lambda>c. c \<noteq> CHR ''/'') (dropWhile (\<lambda>c. c = CHR ''/'') (rev cs))")
    case Nil
    show ?thesis unfolding p dirname_def list.case Let_def Nil by simp
  next
    case (Cons d ds)
    show ?thesis unfolding p dirname_def list.case Let_def Cons by simp
  qed
qed

lemma fold_segments_nonempty:
  "\<forall>s \<in> set acc. s \<noteq> [] \<Longrightarrow> \<forall>s \<in> set (foldl (normalize_segment a) acc segs). s \<noteq> []"
proof (induction segs arbitrary: acc)
  case Nil
  then show ?case by simp
next
  case (Cons seg segs)
  have "\<forall>s \<in> set (normalize_segment a acc seg). s \<noteq> []"
    using Cons.prems by (auto simp: normalize_segment_def dest: in_set_butlastD)
  then show ?case using Cons.IH by simp
qed

lemma path_normalize_no_trailing:
  assumes "p \<noteq> []" "last p \<noteq> CHR ''/''"
  shows "path_normalize p =
     (let st = foldl (normalize_segment (hd p \<noteq> CHR ''/'')) [] (split_slash p)
      in if hd p = CHR ''/'' then CHR ''/'' # join_slash st
         else if st = [] then ''.'' else join_slash st)"
proof -
  have "join_slash st = [] \<longleftrightarrow> st = []"
    if "\<forall>s \<in> set st. s \<noteq> []" for st
    using that join_slash_not_Nil[of st] by (cases st) auto
  moreover have "\<forall>s \<in> set (foldl (normalize_segment a) [] segs). s \<noteq> []" for a segs
    using fold_segments_nonempty[of "[]" a segs] by simp
  ultimately have "join_slash (foldl (normalize_segment a) [] (split_slash p)) = [] \<longleftrightarrow>
      foldl (normalize_segment a) [] (split_slash p) = []" for a
    by simp
  then show ?thesis
    using assms by (simp add: path_normalize_def normalizeString_def Let_def)
qed

lemma seg_len_join_slash:
  "xs \<noteq> [] \<Longrightarrow> Suc (length (join_slash xs)) = sum_list (map (\<lambda>s. Suc (length s)) xs)"
  by (induction xs rule: join_slash.induct) auto

lemma seg_len_split_slash:
  "sum_list (map (\<lambda>s. Suc (length s)) (split_slash s)) = Suc (length s)"
proof (induction s)
  case Nil
  show ?case by simp
next
  case (Cons c s)
  obtain t ts where "split_slash s = t # ts"
    using split_slash_not_Nil[of s] by (cases "split_slash s") auto
  with Cons show ?case by simp
qed

lemma seg_len_butlast:
  "sum_list (map (\<lambda>s. Suc (length s)) (butlast xs)) \<le> sum_list (map (\<lambda>s. Suc (length s)) xs)"
  by (induction xs) auto

lemma seg_len_fold:
  "sum_list (map (\<lambda>s. Suc (length s)) (foldl (normalize_segment a) acc segs))
     \<le> sum_list (map (\<lambda>s. Suc (length s)) acc) + sum_list (map (\<lambda>s. Suc (length s)) segs)"
proof (induction segs arbitrary: acc)
  case Nil
  show ?case by simp
next
  case (Cons seg segs)
  have "sum_list (map (\<lambda>s. Suc (length s)) (normalize_segment a acc seg))
          \<le> sum_list (map (\<lambda>s. Suc (length s)) acc) + Suc (length seg)"
    using seg_len_butlast[of acc] by (auto simp: normalize_segment_def)
  with Cons[of "normalize_segment a acc seg"] show ?case by simp
qed

lemma length_join_fold:
  "length (join_slash (foldl (normalize_segment a) [] (split_slash y))) \<le> length y"
proof (cases "foldl (normalize_segment a) [] (split_slash y) = []")
  case True
  then show ?thesis by simp
next
  case False
  from seg_len_join_slash[OF this] seg_len_fold[of a "[]" "split_slash y"] seg_len_split_slash[of y]
  show ?thesis by simp
qed


lemma normalize_segment_cases:
  "normalize_segment a st f = st @ [f] \<or> normalize_segment a st f = st
   \<or> normalize_segment a st f = butlast st"
  by (simp add: normalize_segment_def)

lemma length_join_butlast:
  "length (join_slash (butlast st)) \<le> length (join_slash st)"
proof (cases "butlast st = []")
  case True
  then show ?thesis by simp
next
  case False
  then have "st \<noteq> []" by auto
  from seg_len_join_slash[OF this] seg_len_join_slash[OF False] seg_len_butlast[of st]
  show ?thesis by simp
qed

lemma sigOutPath_dot: "sigOutPath ''.'' = ''.-sig.bin''"
  by (simp add: sigOutPath_def path_join_def dirname_def basename_def path_normalize_def
        normalizeString_def normalize_segment_def Let_def)

text \<open>
  A path that does not end in a slash is a prefix \<open>x\<close> followed by its file name \<open>f\<close>.  With
  \<open>st\<close> the directory segments that normalisation keeps of \<open>x\<close>, the signature path is \<open>st\<close>
  followed by \<open>f\<close> with the suffix, and the normal form of the path is \<open>st\<close> after one more
  step of normalisation, on \<open>f\<close>.
\<close>

lemma sigOutPath_split:
  assumes ne: "p \<noteq> []" and nt: "last p \<noteq> CHR ''/''"
  obtains x f st where "p = x @ f" and "x = [] \<or> last x = CHR ''/''"
    and "f \<noteq> []" and "CHR ''/'' \<notin> set f" and "basename p = f"
    and "st = foldl (normalize_segment (hd p \<noteq> CHR ''/'')) []
                (if x = [] then [] else split_slash (butlast x))"
    and "sigOutPath p =
           (if hd p = CHR ''/'' then ''/'' else []) @ join_slash (st @ [f @ ''-sig.bin''])"
    and "path_normalize p =
           (if hd p = CHR ''/''
            then CHR ''/'' # join_slash (normalize_segment (hd p \<noteq> CHR ''/'') st f)
            else if normalize_segment (hd p \<noteq> CHR ''/'') st f = [] then ''.''
            else join_slash (normalize_segment (hd p \<noteq> CHR ''/'') st f))"
proof -
  let ?a = "hd p \<noteq> CHR ''/''"
  let ?R = "if hd p = CHR ''/'' then ''/'' else []"
  obtain x f where x: "p = x @ f" "x = [] \<or> last x = CHR ''/''"
    and f: "f \<noteq> []" "CHR ''/'' \<notin> set f" and bn: "basename p = f"
  proof -
    obtain x where "p = x @ basename p" "x = [] \<or> last x = CHR ''/''"
      "basename p \<noteq> []" "CHR ''/'' \<notin> set (basename p)"
      using ne nt by (rule basename_decomp)
    then show ?thesis using that[of x "basename p"] by blast
  qed
  define pre where "pre = (if x = [] then [] else split_slash (butlast x))"
  define st where "st = foldl (normalize_segment ?a) [] pre"
  have xs: "x = butlast x @ ''/''" if "x \<noteq> []"
    using that x(2) append_butlast_last_id[of x] by simp
  have px: "p = butlast x @ CHR ''/'' # f" if "x \<noteq> []"
  proof -
    have "p = (butlast x @ ''/'') @ f"
      using xs[OF that] x(1) by simp
    then show ?thesis by simp
  qed
  have split: "split_slash p = pre @ [f]"
  proof (cases "x = []")
    case True
    then show ?thesis
      using x(1) split_slash_no_slash[OF f(2)] by (simp add: pre_def)
  next
    case False
    then show ?thesis
      unfolding px[OF False] split_slash_append split_slash_no_slash[OF f(2)]
      by (simp add: pre_def)
  qed
  have dir: "foldl (normalize_segment ?a) [] (split_slash (dirname p)) = st"
  proof (cases "x = []")
    case True
    have "foldl (normalize_segment ?a) [] (split_slash (dirname f)) = []"
      by (rule fold_dirname(1)[OF f])
    then show ?thesis
      using x(1) True by (simp add: st_def pre_def)
  next
    case False
    have "foldl (normalize_segment ?a) [] (split_slash (dirname (butlast x @ CHR ''/'' # f))) =
          foldl (normalize_segment ?a) [] (split_slash (butlast x))"
      by (rule fold_dirname(2)[OF f])
    then show ?thesis
      using px[OF False] False by (simp add: st_def pre_def)
  qed
  have sig: "sigOutPath p = ?R @ join_slash (st @ [f @ ''-sig.bin''])"
    unfolding sigOutPath_eq[of p] hd_dirname[OF ne] dir bn ..
  have whole: "foldl (normalize_segment ?a) [] (split_slash p) = normalize_segment ?a st f"
    unfolding split st_def by simp
  have norm: "path_normalize p =
     (if hd p = CHR ''/'' then CHR ''/'' # join_slash (normalize_segment ?a st f)
      else if normalize_segment ?a st f = [] then ''.''
      else join_slash (normalize_segment ?a st f))"
    unfolding path_normalize_no_trailing[OF ne nt] whole Let_def ..
  have "st = foldl (normalize_segment ?a) [] (if x = [] then [] else split_slash (butlast x))"
    unfolding st_def pre_def ..
  from that[OF x f bn this sig norm] show ?thesis .
qed

text \<open>
  When the step on the file name only appends it, the signature path is the normal form of
  the input path followed by the suffix.
\<close>

lemma sigOutPath_kept_name:
  assumes "normalize_segment (hd p \<noteq> CHR ''/'') st f = st @ [f]"
    and "sigOutPath p =
           (if hd p = CHR ''/'' then ''/'' else []) @ join_slash (st @ [f @ ''-sig.bin''])"
    and "path_normalize p =
           (if hd p = CHR ''/''
            then CHR ''/'' # join_slash (normalize_segment (hd p \<noteq> CHR ''/'') st f)
            else if normalize_segment (hd p \<noteq> CHR ''/'') st f = [] then ''.''
            else join_slash (normalize_segment (hd p \<noteq> CHR ''/'') st f))"
  shows "sigOutPath p = path_normalize p @ ''-sig.bin''"
proof -
  let ?R = "if hd p = CHR ''/'' then ''/'' else []"
  have "path_normalize p = ?R @ join_slash (st @ [f])"
    unfolding assms(3) assms(1) by simp
  then have "path_normalize p @ ''-sig.bin'' = ?R @ join_slash (st @ [f]) @ ''-sig.bin''"
    by simp
  also have "\<dots> = ?R @ join_slash (st @ [f @ ''-sig.bin''])"
    by (simp add: join_slash_snoc)
  finally show ?thesis using assms(2) by simp
qed

text \<open>
  The signature path of a path that names a file (it does not end in a slash, and its last
  segment is a name, not \<open>.\<close> or \<open>..\<close>) is the normal form of that path followed by the
  suffix.
\<close>

lemma sigOutPath_path_normalize:
  assumes ne: "p \<noteq> []" and nt: "last p \<noteq> CHR ''/''"
    and nd: "basename p \<noteq> ''.''" and ndd: "basename p \<noteq> ''..''"
  shows "sigOutPath p = path_normalize p @ ''-sig.bin''"
proof -
  from ne nt obtain x f st where f: "f \<noteq> []" "basename p = f"
    and sig: "sigOutPath p =
           (if hd p = CHR ''/'' then ''/'' else []) @ join_slash (st @ [f @ ''-sig.bin''])"
    and norm: "path_normalize p =
           (if hd p = CHR ''/''
            then CHR ''/'' # join_slash (normalize_segment (hd p \<noteq> CHR ''/'') st f)
            else if normalize_segment (hd p \<noteq> CHR ''/'') st f = [] then ''.''
            else join_slash (normalize_segment (hd p \<noteq> CHR ''/'') st f))"
    by (rule sigOutPath_split)
  have "normalize_segment (hd p \<noteq> CHR ''/'') st f = st @ [f]"
    using f nd ndd by (simp add: normalize_segment_plain)
  then show ?thesis using sig norm by (rule sigOutPath_kept_name)
qed

text \<open>
  For a path in normal form the signature path is the path itself followed by the suffix:
  a path whose last step of normalisation drops a segment is longer than its normal form.
\<close>

lemma sigOutPath_normal_form:
  assumes nf: "path_normalize p = p" and ne: "p \<noteq> []" and nt: "last p \<noteq> CHR ''/''"
  shows "sigOutPath p = p @ ''-sig.bin''"
proof -
  let ?a = "hd p \<noteq> CHR ''/''"
  from ne nt obtain x f st where x: "p = x @ f" "x = [] \<or> last x = CHR ''/''"
    and f: "f \<noteq> []" "CHR ''/'' \<notin> set f"
    and st_def: "st = foldl (normalize_segment ?a) []
                (if x = [] then [] else split_slash (butlast x))"
    and sig: "sigOutPath p =
           (if hd p = CHR ''/'' then ''/'' else []) @ join_slash (st @ [f @ ''-sig.bin''])"
    and norm: "path_normalize p =
           (if hd p = CHR ''/''
            then CHR ''/'' # join_slash (normalize_segment ?a st f)
            else if normalize_segment ?a st f = [] then ''.''
            else join_slash (normalize_segment ?a st f))"
    by (rule sigOutPath_split)
  show ?thesis
  proof (cases "normalize_segment ?a st f = st @ [f]")
    case True
    from True sig norm have "sigOutPath p = path_normalize p @ ''-sig.bin''"
      by (rule sigOutPath_kept_name)
    with nf show ?thesis by simp
  next
    case False
    with normalize_segment_cases[of ?a st f]
    have less: "normalize_segment ?a st f = st \<or> normalize_segment ?a st f = butlast st"
      by blast
    show ?thesis
    proof (cases "x = []")
      case True
      then have pf: "p = f" using x(1) by simp
      have st0: "st = []" by (simp add: st_def True)
      have rel: "hd p \<noteq> CHR ''/''"
        unfolding pf using f by (cases f) auto
      have "f = ''.''"
      proof (rule ccontr)
        assume "f \<noteq> ''.''"
        then have "normalize_segment ?a st f = st @ [f]"
          using f(1) rel by (simp add: normalize_segment_def st0)
        with False show False by simp
      qed
      then show ?thesis
        unfolding pf by (simp add: sigOutPath_dot)
    next
      case nonempty: False
      have "length x = Suc (length (butlast x))"
        using nonempty by simp
      moreover have "length p = length x + length f"
        unfolding x(1) by simp
      moreover have "0 < length f" using f(1) by simp
      ultimately have lenp: "length (butlast x) + 2 \<le> length p"
        by linarith
      have "length (join_slash st) \<le> length (butlast x)"
        unfolding st_def using nonempty length_join_fold[of ?a "butlast x"] by simp
      with less length_join_butlast[of st]
      have "length (join_slash (normalize_segment ?a st f)) \<le> length (butlast x)"
        by auto
      then have "length (path_normalize p) \<le> Suc (length (butlast x))"
        unfolding norm by (cases "hd p = CHR ''/''") simp_all
      with lenp have "length (path_normalize p) < length p" by linarith
      with nf show ?thesis by simp
    qed
  qed
qed

lemma sigOutPath_example:
  "sigOutPath ''/a/b/artifact.bin'' = ''/a/b/artifact.bin-sig.bin''"
  by (simp add: sigOutPath_def path_join_def dirname_def basename_def path_normalize_def
        normalizeString_def normalize_segment_def Let_def)

lemma sigOutPath_example2: "sigOutPath ''/x/y.bin'' = ''/x/y.bin-sig.bin''"
  by (simp add: sigOutPath_def path_join_def dirname_def basename_def path_normalize_def
        normalizeString_def normalize_segment_def Let_def)

subsection \<open>Key extraction\<close>

lemma getBags_Nil_iff:
  "getBags_localKeyIdHex p12 hex = [] \<longleftrightarrow>
     \<not> (\<exists>bag \<in> set (concat p12). \<exists>vals. localKeyId bag = Some vals \<and> hexToBytes hex \<in> set vals)"
  by (auto simp: getBags_localKeyIdHex_def filter_empty_conv split: option.splits)

lemma falsy_iff: "falsy v \<longleftrightarrow> v = None \<or> v = Some []"
  by (simp add: falsy_def split: option.split)

lemma getPrivateKey_missing:
  "falsy (env w ''LINUX_CSC_LINK'') \<or> falsy (env w ''LINUX_CSC_KEY_PASSWORD'')
   \<Longrightarrow> getPrivateKey lib w = (Inl MissingEnvError, w)"
  by (simp add: getPrivateKey_def Let_def)

text \<open>With both values present, \<open>getPrivateKey\<close> is the read of the bundle followed by the
  library calls and the bag lookup.\<close>

lemma getPrivateKey_configured:
  assumes "env w ''LINUX_CSC_LINK'' = Some lnk" "lnk \<noteq> []"
    and "env w ''LINUX_CSC_KEY_PASSWORD'' = Some pass" "pass \<noteq> []"
  shows "getPrivateKey lib w =
     (case files w lnk of
        None \<Rightarrow> Inl (ReadFailed lnk)
      | Some buf \<Rightarrow>
          (case asn1_fromDer lib (decode64 (toString_base64 buf)) of
             Inl e \<Rightarrow> Inl (ForgeError e)
           | Inr p12Asn1 \<Rightarrow>
               (case pkcs12FromAsn1 lib p12Asn1 pass of
                  Inl e \<Rightarrow> Inl (ForgeError e)
                | Inr p12 \<Rightarrow>
                    (case getBags_localKeyIdHex p12 localKeyIdHex of
                       [] \<Rightarrow> Inl (TypeError ''key'')
                     | bag0 # _ \<Rightarrow> Inr (key bag0)))),
      w\<lparr>trace := trace w @ [ReadFile lnk]\<rparr>)"
  using assms
  by (simp add: getPrivateKey_def Let_def falsy_def readFileSync_def
      split: option.split sum.split list.split)

lemma getPrivateKey_not_MissingEnvError:
  assumes "\<not> falsy (env w ''LINUX_CSC_LINK'')" "\<not> falsy (env w ''LINUX_CSC_KEY_PASSWORD'')"
  shows "fst (getPrivateKey lib w) \<noteq> Inl MissingEnvError"
  using assms
  by (simp add: getPrivateKey_def Let_def readFileSync_def split: option.split sum.split list.split)

lemma getPrivateKey_frame:
  "files (snd (getPrivateKey lib w)) = files w \<and> env (snd (getPrivateKey lib w)) = env w
   \<and> on_write (snd (getPrivateKey lib w)) = on_write w
   \<and> canonical (snd (getPrivateKey lib w)) = canonical w"
  by (simp add: getPrivateKey_def Let_def readFileSync_def split: option.split sum.split list.split)

lemma getPrivateKey_trace:
  "trace (snd (getPrivateKey lib w)) =
     (if falsy (env w ''LINUX_CSC_LINK'') \<or> falsy (env w ''LINUX_CSC_KEY_PASSWORD'') then trace w
      else trace w @ [ReadFile (the (env w ''LINUX_CSC_LINK''))])"
  by (simp add: getPrivateKey_def Let_def readFileSync_def split: option.split sum.split list.split)

lemma getPrivateKey_trace_indep:
  "env w' = env w \<Longrightarrow> files w' = files w \<Longrightarrow> fst (getPrivateKey lib w') = fst (getPrivateKey lib w)"
  by (simp add: getPrivateKey_def Let_def readFileSync_def split: option.split sum.split list.split)

subsection \<open>Writing a file\<close>

lemma same_file_refl: "same_file w p p"
  by (simp add: same_file_def)

lemma file_put_same: "file_put w p content p = Some content"
  by (simp add: file_put_def same_file_def)

lemma file_put_other: "\<not> same_file w q p \<Longrightarrow> file_put w p content q = files w q"
  by (simp add: file_put_def)

text \<open>The three ways \<open>fs.writeFileSync\<close> can go.\<close>

lemma writeFileSync_cases:
  fixes r :: "'e js_error + unit"
  assumes "writeFileSync w p content = (r, w')"
  obtains
    (completes) "on_write w p = Completes" "r = Inr ()"
      "w' = w\<lparr>files := file_put w p content, trace := trace w @ [WriteFile p content]\<rparr>"
  | (at_open) "on_write w p = FailsAtOpen" "r = Inl (WriteFailed p)" "w' = w"
  | (broken_off) n where "on_write w p = FailsAfter n" "r = Inl (WriteFailed p)"
      "w' = w\<lparr>files := file_put w p (take n content),
               trace := trace w @ [WriteFile p (take n content)]\<rparr>"
  using assms by (cases "on_write w p") (auto simp: writeFileSync_def)

subsection \<open>The signer, case by case\<close>

lemma signer_unfold:
  "signer lib w filePath =
     (case files w filePath of
        None \<Rightarrow> (Inl (ReadFailed filePath), w_read w filePath)
      | Some fileData \<Rightarrow>
          (case getPrivateKey lib (w_read w filePath) of
             (Inl e, w2) \<Rightarrow> (Inl e, w2)
           | (Inr None, w2) \<Rightarrow> (Inl (TypeError ''sign''), w2)
           | (Inr (Some k), w2) \<Rightarrow>
               (case rsassa_pkcs1_v1_5 lib k (sha512_digest lib (toString_binary fileData)) of
                  Inl e \<Rightarrow> (Inl (ForgeError e), w2)
                | Inr s \<Rightarrow> writeFileSync w2 (sigOutPath filePath) (Buffer_from_binary s))))"
  by (simp add: signer_def sigOutPath_def w_read_def readFileSync_def console_log_def Let_def
        privateKey_sign_def md_update_def sha512_create_def
        split: option.split sum.split prod.split)

lemma w_read_frame [simp]:
  "files (w_read w p) = files w" "env (w_read w p) = env w" "on_write (w_read w p) = on_write w"
  "canonical (w_read w p) = canonical w"
  by (simp_all add: w_read_def)

lemma w_keyed_frame [simp]:
  "files (w_keyed lib w p) = files w" "env (w_keyed lib w p) = env w"
  "on_write (w_keyed lib w p) = on_write w" "canonical (w_keyed lib w p) = canonical w"
  using getPrivateKey_frame[of lib "w_read w p"] by (simp_all add: w_keyed_def)

lemma w_keyed_writes [simp]:
  "filter is_write (trace (w_keyed lib w p)) = filter is_write (trace w)"
  by (simp add: w_keyed_def getPrivateKey_trace w_read_def)

lemma file_put_w_keyed [simp]: "file_put (w_keyed lib w p) = file_put w"
  by (simp add: file_put_def same_file_def fun_eq_iff)

text \<open>
  A run of \<open>signer\<close> either stops before its last statement, with an error and with nothing
  but the trace of its reads added to the state, or it reaches \<open>fs.writeFileSync\<close> with the
  file's bytes, the extracted key and the signature, and ends as that call ends.
\<close>

lemma signer_cases:
  fixes lib :: "('a, 'k, 'e) forge"
  assumes "signer lib w filePath = (r, w')"
  obtains
    (stopped) e where "r = Inl e" "\<forall>q. e \<noteq> WriteFailed q"
      "files w' = files w" "env w' = env w"
      "filter is_write (trace w') = filter is_write (trace w)"
  | (writing) fileData k s where "files w filePath = Some fileData"
      "fst (getPrivateKey lib w) = Inr (Some k)"
      "rsassa_pkcs1_v1_5 lib k (sha512_digest lib (toString_binary fileData)) = Inr s"
      "writeFileSync (w_keyed lib w filePath) (sigOutPath filePath) (Buffer_from_binary s) = (r, w')"
proof (cases "files w filePath")
  case None
  with assms have "r = Inl (ReadFailed filePath)" "w' = w_read w filePath"
    by (simp_all add: signer_unfold)
  then show ?thesis
    by (intro stopped[of "ReadFailed filePath"]) (simp_all add: w_read_def)
next
  case (Some fileData)
  obtain g w2 where g: "getPrivateKey lib (w_read w filePath) = (g, w2)"
    by (cases "getPrivateKey lib (w_read w filePath)")
  then have w2: "w2 = w_keyed lib w filePath"
    by (simp add: w_keyed_def)
  have fg: "fst (getPrivateKey lib w) = g"
    using getPrivateKey_trace_indep[of "w_read w filePath" w lib] g by simp
  have not_write: "g \<noteq> Inl (WriteFailed q)" for q
  proof
    assume "g = Inl (WriteFailed q)"
    with g have "fst (getPrivateKey lib (w_read w filePath)) = Inl (WriteFailed q)"
      by simp
    then show False
      by (simp add: getPrivateKey_def Let_def readFileSync_def
            split: if_splits option.splits sum.splits list.splits)
  qed
  show ?thesis
  proof (cases g)
    case (Inl e)
    with assms Some g have "r = Inl e" "w' = w2"
      by (simp_all add: signer_unfold)
    moreover have "\<forall>q. e \<noteq> WriteFailed q"
      using not_write Inl by auto
    ultimately show ?thesis
      unfolding w2 by (intro stopped[of e]) simp_all
  next
    case (Inr ko)
    show ?thesis
    proof (cases ko)
      case None
      with assms Some g Inr have "r = Inl (TypeError ''sign'')" "w' = w2"
        by (simp_all add: signer_unfold)
      then show ?thesis
        unfolding w2 by (intro stopped[of "TypeError ''sign''"]) simp_all
    next
      case (Some k)
      note k = this
      show ?thesis
      proof (cases "rsassa_pkcs1_v1_5 lib k (sha512_digest lib (toString_binary fileData))")
        case (Inl e)
        with assms \<open>files w filePath = Some fileData\<close> g Inr k
        have "r = Inl (ForgeError e)" "w' = w2"
          by (simp_all add: signer_unfold)
        then show ?thesis
          unfolding w2 by (intro stopped[of "ForgeError e"]) simp_all
      next
        case (Inr s)
        with assms \<open>files w filePath = Some fileData\<close> g \<open>g = Inr ko\<close> k
        have "writeFileSync w2 (sigOutPath filePath) (Buffer_from_binary s) = (r, w')"
          by (simp add: signer_unfold)
        with \<open>files w filePath = Some fileData\<close> fg \<open>g = Inr ko\<close> k Inr show ?thesis
          unfolding w2 by (intro writing[of fileData k s]) simp_all
      qed
    qed
  qed
qed

lemma signer_success:
  fixes lib :: "('a, 'k, 'e) forge"
  assumes "signer lib w filePath = (Inr (), w')"
  shows "\<exists>fileData k s. files w filePath = Some fileData
           \<and> fst (getPrivateKey lib w) = Inr (Some k)
           \<and> rsassa_pkcs1_v1_5 lib k (sha512_digest lib (toString_binary fileData)) = Inr s
           \<and> on_write w (sigOutPath filePath) = Completes
           \<and> w' = (w_keyed lib w filePath)
                   \<lparr>files := file_put w (sigOutPath filePath) (Buffer_from_binary s),
                     trace := trace (w_keyed lib w filePath)
                                @ [WriteFile (sigOutPath filePath) (Buffer_from_binary s)]\<rparr>"
  using assms
proof (cases rule: signer_cases)
  case (stopped e)
  then show ?thesis by simp
next
  case (writing fileData k s)
  from writing(4) have "on_write w (sigOutPath filePath) = Completes
      \<and> w' = (w_keyed lib w filePath)
                   \<lparr>files := file_put w (sigOutPath filePath) (Buffer_from_binary s),
                     trace := trace (w_keyed lib w filePath)
                                @ [WriteFile (sigOutPath filePath) (Buffer_from_binary s)]\<rparr>"
    by (cases rule: writeFileSync_cases) simp_all
  with writing(1-3) show ?thesis by blast
qed

lemma signer_succeeds:
  assumes "files w filePath = Some fileData"
    and "fst (getPrivateKey lib w) = Inr (Some k)"
    and "rsassa_pkcs1_v1_5 lib k (sha512_digest lib (toString_binary fileData)) = Inr s"
    and "on_write w (sigOutPath filePath) = Completes"
  shows "fst (signer lib w filePath) = Inr ()"
    and "files (snd (signer lib w filePath)) = file_put w (sigOutPath filePath) (Buffer_from_binary s)"
proof -
  obtain r w2 where g: "getPrivateKey lib (w_read w filePath) = (r, w2)"
    by (cases "getPrivateKey lib (w_read w filePath)")
  then have w2: "w2 = w_keyed lib w filePath"
    by (simp add: w_keyed_def)
  have r: "r = Inr (Some k)"
    using getPrivateKey_trace_indep[of "w_read w filePath" w lib] g assms(2) by simp
  show "fst (signer lib w filePath) = Inr ()"
    and "files (snd (signer lib w filePath)) = file_put w (sigOutPath filePath) (Buffer_from_binary s)"
    using assms g r unfolding w2 by (simp_all add: signer_unfold writeFileSync_def)
qed

subsection \<open>Running the script on the concrete inputs\<close>

lemma hexToBytes_localKeyIdHex:
  "hexToBytes localKeyIdHex =
     [111, 239, 238, 74, 147, 99, 75, 149, 221, 130, 151, 113, 67, 214, 150, 101, 202, 145, 128, 210]"
  by (simp add: hexToBytes_def localKeyIdHex_def parseInt16_def hex_digit_def)

lemma path_normalize_examples:
  "path_normalize ''/a/b/artifact.bin'' = ''/a/b/artifact.bin''"
  "path_normalize ''/a/b/artifact.bin-sig.bin'' = ''/a/b/artifact.bin-sig.bin''"
  "path_normalize ''/k/cert.p12'' = ''/k/cert.p12''"
  "path_normalize ''/k/missing.p12'' = ''/k/missing.p12''"
  "path_normalize ''/x/y.bin'' = ''/x/y.bin''"
  "path_normalize ''/x/y.bin-sig.bin'' = ''/x/y.bin-sig.bin''"
  "path_normalize ''/other.p12'' = ''/other.p12''"
  "path_normalize ''./artifact.bin'' = ''artifact.bin''"
  "path_normalize ''artifact.bin'' = ''artifact.bin''"
  "path_normalize ''./artifact.bin-sig.bin'' = ''artifact.bin-sig.bin''"
  "path_normalize ''artifact.bin-sig.bin'' = ''artifact.bin-sig.bin''"
  by (simp_all add: path_normalize_def normalizeString_def normalize_segment_def Let_def)

lemma sigOutPath_example3: "sigOutPath ''./artifact.bin'' = ''artifact.bin-sig.bin''"
  by (simp add: sigOutPath_def path_join_def dirname_def basename_def path_normalize_def
        normalizeString_def normalize_segment_def Let_def)

lemmas demo_simps = signer_unfold w_read_def getPrivateKey_def readFileSync_def writeFileSync_def
  file_put_def same_file_def demo_link_def
  Let_def demo_world_def demo_forge_def demo_bag_def falsy_def decode64_toString_base64
  toString_binary_def Buffer_from_binary_def getBags_localKeyIdHex_def hexToBytes_localKeyIdHex
  privateKey_sign_def md_update_def sha512_create_def sigOutPath_example sigOutPath_example2
  sigOutPath_example3 path_normalize_examples

section \<open>The claims\<close>

text \<open>
  C1 (as amended).  When \<open>LINUX_CSC_LINK\<close> or \<open>LINUX_CSC_KEY_PASSWORD\<close> is absent or empty,
  \<open>signer\<close> fails and writes nothing: the file system is unchanged, so no signature file
  is created.  The check of the two values sits in \<open>getPrivateKey\<close>, which \<open>signer\<close> calls
  after it has read the target file: the I/O performed is the progress line and that one
  read, and the failure is the configuration error when the target file can be read and
  the read's own error otherwise.
\<close>

theorem signer_missing_env:
  assumes "falsy (env w ''LINUX_CSC_LINK'') \<or> falsy (env w ''LINUX_CSC_KEY_PASSWORD'')"
  shows "fst (signer lib w filePath) =
           (if files w filePath = None then Inl (ReadFailed filePath) else Inl MissingEnvError)
         \<and> files (snd (signer lib w filePath)) = files w
         \<and> trace (snd (signer lib w filePath)) =
             trace w @ [ConsoleLog [''Signing'', basename filePath, ''...''], ReadFile filePath]"
proof -
  have "falsy (env (w_read w filePath) ''LINUX_CSC_LINK'')
        \<or> falsy (env (w_read w filePath) ''LINUX_CSC_KEY_PASSWORD'')"
    using assms by simp
  then have "getPrivateKey lib (w_read w filePath) = (Inl MissingEnvError, w_read w filePath)"
    by (rule getPrivateKey_missing)
  then show ?thesis
    by (simp add: signer_unfold w_read_def split: option.split)
qed

theorem signer_missing_env_witness:
  "falsy (env (demo_world (Some ''/k/cert.p12'') None
                 [(''/a/b/artifact.bin'', [1, 2, 3]), (''/k/cert.p12'', [1])]) ''LINUX_CSC_KEY_PASSWORD'')
   \<and> fst (signer demo_forge
             (demo_world (Some ''/k/cert.p12'') None
                 [(''/a/b/artifact.bin'', [1, 2, 3]), (''/k/cert.p12'', [1])])
             ''/a/b/artifact.bin'') = Inl MissingEnvError
   \<and> files (snd (signer demo_forge
             (demo_world (Some ''/k/cert.p12'') None
                 [(''/a/b/artifact.bin'', [1, 2, 3]), (''/k/cert.p12'', [1])])
             ''/a/b/artifact.bin'')) ''/a/b/artifact.bin-sig.bin'' = None"
  using signer_missing_env[of "demo_world (Some ''/k/cert.p12'') None
                 [(''/a/b/artifact.bin'', [1, 2, 3]), (''/k/cert.p12'', [1])]" demo_forge "''/a/b/artifact.bin''"]
  by (simp add: demo_world_def falsy_def path_normalize_examples)

text \<open>
  C1 as stated fails: with the passphrase variable unset and the target file present, the
  run ends in the configuration error, but the target file has been read by then; with
  the target file absent as well, the run ends in the read error of the target and the
  configuration is never looked at.
\<close>

theorem signer_reads_target_before_env_check:
  "falsy (env (demo_world (Some ''/k/cert.p12'') None
                 [(''/a/b/artifact.bin'', [1, 2, 3]), (''/k/cert.p12'', [1])]) ''LINUX_CSC_KEY_PASSWORD'')
   \<and> fst (signer demo_forge
             (demo_world (Some ''/k/cert.p12'') None
                 [(''/a/b/artifact.bin'', [1, 2, 3]), (''/k/cert.p12'', [1])])
             ''/a/b/artifact.bin'') = Inl MissingEnvError
   \<and> ReadFile ''/a/b/artifact.bin'' \<in> set (trace (snd (signer demo_forge
             (demo_world (Some ''/k/cert.p12'') None
                 [(''/a/b/artifact.bin'', [1, 2, 3]), (''/k/cert.p12'', [1])])
             ''/a/b/artifact.bin'')))
   \<and> fst (signer demo_forge (demo_world (Some ''/k/cert.p12'') None [(''/k/cert.p12'', [1])])
             ''/a/b/artifact.bin'') = Inl (ReadFailed ''/a/b/artifact.bin'')"
  by (simp add: demo_simps)

text \<open>
  C2.  The script has no check of the bag lookup's result.  On a bundle in which no bag
  carries the identifier, \<open>bag[0]\<close> is \<open>undefined\<close> and reading its \<open>key\<close> raises the run-time
  \<open>TypeError\<close>; on a bundle in which the only bag that carries the identifier has no key
  (a certificate bag), \<open>getPrivateKey\<close> returns \<open>undefined\<close> to \<open>signer\<close>, and the failure is the
  \<open>TypeError\<close> of \<open>privateKey.sign\<close>.  Neither is an explicit error of the script.  In both
  runs nothing is written.
\<close>

theorem getPrivateKey_unmatched_bundle:
  "fst (getPrivateKey demo_forge
          (demo_world (Some ''/k/cert.p12'') (Some ''secret'') [(''/k/cert.p12'', [3])]))
     = Inl (TypeError ''key'')
   \<and> fst (getPrivateKey demo_forge
          (demo_world (Some ''/k/cert.p12'') (Some ''secret'') [(''/k/cert.p12'', [2])]))
     = Inr None
   \<and> fst (signer demo_forge
          (demo_world (Some ''/k/cert.p12'') (Some ''secret'')
             [(''/a/b/artifact.bin'', [1, 2, 3]), (''/k/cert.p12'', [2])]) ''/a/b/artifact.bin'')
     = Inl (TypeError ''sign'')
   \<and> files (snd (signer demo_forge
          (demo_world (Some ''/k/cert.p12'') (Some ''secret'')
             [(''/a/b/artifact.bin'', [1, 2, 3]), (''/k/cert.p12'', [2])]) ''/a/b/artifact.bin''))
        ''/a/b/artifact.bin-sig.bin'' = None
   \<and> fst (signer demo_forge
          (demo_world (Some ''/k/cert.p12'') (Some ''secret'')
             [(''/a/b/artifact.bin'', [1, 2, 3]), (''/k/cert.p12'', [3])]) ''/a/b/artifact.bin'')
     = Inl (TypeError ''key'')
   \<and> files (snd (signer demo_forge
          (demo_world (Some ''/k/cert.p12'') (Some ''secret'')
             [(''/a/b/artifact.bin'', [1, 2, 3]), (''/k/cert.p12'', [3])]) ''/a/b/artifact.bin''))
        ''/a/b/artifact.bin-sig.bin'' = None"
  by (simp add: demo_simps)

text \<open>
  C3.  Whenever \<open>signer\<close> succeeds, the target file existed with some content
  \<open>fileData\<close>, key extraction returned a key \<open>k\<close>, and the content of the signature file is
  the RSASSA-PKCS1-v1_5 signature under \<open>k\<close> of the SHA-512 digest of
  \<open>fileData.toString('binary')\<close>, turned into bytes by \<open>Buffer.from(_, 'binary')\<close>.  The
  binary string has one code unit per byte of the file and converts back to exactly the
  file's bytes: nothing is decoded or translated.
\<close>

theorem signer_writes_signature_of_digest:
  assumes "signer lib w filePath = (Inr (), w')"
  shows "\<exists>fileData k s.
           files w filePath = Some fileData
           \<and> fst (getPrivateKey lib w) = Inr (Some k)
           \<and> rsassa_pkcs1_v1_5 lib k (sha512_digest lib (toString_binary fileData)) = Inr s
           \<and> files w' (sigOutPath filePath) = Some (Buffer_from_binary s)
           \<and> length (toString_binary fileData) = length fileData
           \<and> Buffer_from_binary (toString_binary fileData) = fileData"
proof -
  from signer_success[OF assms] obtain fileData k s where
    "files w filePath = Some fileData"
    "fst (getPrivateKey lib w) = Inr (Some k)"
    "rsassa_pkcs1_v1_5 lib k (sha512_digest lib (toString_binary fileData)) = Inr s"
    "w' = (w_keyed lib w filePath)
             \<lparr>files := file_put w (sigOutPath filePath) (Buffer_from_binary s),
               trace := trace (w_keyed lib w filePath)
                          @ [WriteFile (sigOutPath filePath) (Buffer_from_binary s)]\<rparr>"
    by blast
  moreover have "length (toString_binary fileData) = length fileData"
    by (simp add: toString_binary_def)
  ultimately show ?thesis
    using Buffer_from_binary_toString_binary[of fileData] by (auto simp: file_put_same)
qed

theorem signer_writes_signature_of_digest_witness:
  "fst (signer demo_forge
          (demo_world (Some ''/k/cert.p12'') (Some ''secret'')
             [(''/a/b/artifact.bin'', [1, 2, 3]), (''/k/cert.p12'', [1])]) ''/a/b/artifact.bin'') = Inr ()
   \<and> files (snd (signer demo_forge
          (demo_world (Some ''/k/cert.p12'') (Some ''secret'')
             [(''/a/b/artifact.bin'', [1, 2, 3]), (''/k/cert.p12'', [1])]) ''/a/b/artifact.bin''))
        ''/a/b/artifact.bin-sig.bin'' = Some [10, 13]
   \<and> (\<exists>k s. fst (getPrivateKey demo_forge
                     (demo_world (Some ''/k/cert.p12'') (Some ''secret'')
                        [(''/a/b/artifact.bin'', [1, 2, 3]), (''/k/cert.p12'', [1])])) = Inr (Some k)
            \<and> rsassa_pkcs1_v1_5 demo_forge k (sha512_digest demo_forge (toString_binary [1, 2, 3])) = Inr s
            \<and> Buffer_from_binary s = [10, 13])"
proof -
  let ?w = "demo_world (Some ''/k/cert.p12'') (Some ''secret'')
             [(''/a/b/artifact.bin'', [1, 2, 3]), (''/k/cert.p12'', [1])]"
  let ?run = "signer demo_forge ?w ''/a/b/artifact.bin''"
  have ok: "fst ?run = Inr ()"
    by (simp add: demo_simps)
  have out: "files (snd ?run) ''/a/b/artifact.bin-sig.bin'' = Some [10, 13]"
    by (simp add: demo_simps)
  have src: "files ?w ''/a/b/artifact.bin'' = Some [1, 2, 3]"
    by (simp add: demo_world_def path_normalize_examples)
  from ok have "?run = (Inr (), snd ?run)"
    by (simp add: prod_eq_iff)
  from signer_writes_signature_of_digest[OF this] src out ok show ?thesis
    by (auto simp: sigOutPath_example)
qed

text \<open>
  C4 (as amended).  The path of the signature file is
  \<open>path.join(dirname, basename + '-sig.bin')\<close>, and \<open>path.join\<close> normalises.  For every
  input path that names a file (it is not empty, does not end in a slash, and its last
  segment is not \<open>.\<close> or \<open>..\<close>), the signature path is exactly the normal form of the input
  path, \<open>path.normalize(filePath)\<close>, followed by \<open>-sig.bin\<close>.  Hence for every input path
  that is in normal form and does not end in a slash, the signature path is exactly the
  input path followed by \<open>-sig.bin\<close>.  For every input path whatsoever, the file name of
  the signature path is the input's file name followed by \<open>-sig.bin\<close>.
\<close>

theorem sigOutPath_appends_suffix:
  assumes "p \<noteq> []" and "last p \<noteq> CHR ''/''"
  shows "(basename p \<noteq> ''.'' \<and> basename p \<noteq> ''..''
            \<longrightarrow> sigOutPath p = path_normalize p @ ''-sig.bin'')
         \<and> (path_normalize p = p \<longrightarrow> sigOutPath p = p @ ''-sig.bin'')
         \<and> basename (sigOutPath q) = basename q @ ''-sig.bin''"
  using sigOutPath_path_normalize[OF assms] sigOutPath_normal_form[OF _ assms]
    basename_sigOutPath[of q]
  by simp

theorem sigOutPath_appends_suffix_witness:
  "path_normalize ''/a/b/../artifact.bin'' = ''/a/artifact.bin''
   \<and> sigOutPath ''/a/b/../artifact.bin'' = ''/a/artifact.bin-sig.bin''
   \<and> path_normalize ''/a/b/artifact.bin'' = ''/a/b/artifact.bin''
   \<and> sigOutPath ''/a/b/artifact.bin'' = ''/a/b/artifact.bin-sig.bin''
   \<and> basename (sigOutPath ''dist/./x.AppImage'') = ''x.AppImage-sig.bin''"
proof -
  have n1: "path_normalize ''/a/b/../artifact.bin'' = ''/a/artifact.bin''"
    and n2: "path_normalize ''/a/b/artifact.bin'' = ''/a/b/artifact.bin''"
    by (simp_all add: path_normalize_def normalizeString_def normalize_segment_def Let_def)
  have b1: "basename ''/a/b/../artifact.bin'' = ''artifact.bin''"
    and b3: "basename ''dist/./x.AppImage'' = ''x.AppImage''"
    by (simp_all add: basename_def)
  have "''/a/b/../artifact.bin'' \<noteq> []" and "last ''/a/b/../artifact.bin'' \<noteq> CHR ''/''"
    by simp_all
  from sigOutPath_appends_suffix[OF this, of "''dist/./x.AppImage''"]
  have 1: "sigOutPath ''/a/b/../artifact.bin'' = ''/a/artifact.bin-sig.bin''"
    and 3: "basename (sigOutPath ''dist/./x.AppImage'') = ''x.AppImage-sig.bin''"
    by (simp_all add: n1 b1 b3)
  have "''/a/b/artifact.bin'' \<noteq> []" and "last ''/a/b/artifact.bin'' \<noteq> CHR ''/''"
    by simp_all
  from sigOutPath_appends_suffix[OF this, of "[]"] n2
  have 2: "sigOutPath ''/a/b/artifact.bin'' = ''/a/b/artifact.bin-sig.bin''"
    by simp
  from n1 n2 1 2 3 show ?thesis by simp
qed

text \<open>
  C4 as stated fails on an input path that is not in normal form: the output is the
  normalised path with the suffix, which is not the input followed by the suffix.  (With
  \<open>..\<close> after a symbolic link the two paths need not even name the same directory.)
\<close>

theorem sigOutPath_normalises:
  "sigOutPath ''./artifact.bin'' = ''artifact.bin-sig.bin''
   \<and> sigOutPath ''./artifact.bin'' \<noteq> ''./artifact.bin'' @ ''-sig.bin''
   \<and> sigOutPath ''/a/b/../artifact.bin'' = ''/a/artifact.bin-sig.bin''
   \<and> sigOutPath ''/a/b/../artifact.bin'' \<noteq> ''/a/b/../artifact.bin'' @ ''-sig.bin''"
  by (simp add: sigOutPath_def path_join_def dirname_def basename_def path_normalize_def
        normalizeString_def normalize_segment_def Let_def)

text \<open>
  C5.  \<open>getPrivateKey\<close> throws its configuration error exactly when \<open>LINUX_CSC_LINK\<close> or
  \<open>LINUX_CSC_KEY_PASSWORD\<close> is absent or empty, and when it does, the state is the one it was
  called in: nothing has been read, the credential bundle in particular.
\<close>

theorem getPrivateKey_MissingEnvError_iff:
  "(fst (getPrivateKey lib w) = Inl MissingEnvError \<longleftrightarrow>
      env w ''LINUX_CSC_LINK'' = None \<or> env w ''LINUX_CSC_LINK'' = Some []
      \<or> env w ''LINUX_CSC_KEY_PASSWORD'' = None \<or> env w ''LINUX_CSC_KEY_PASSWORD'' = Some [])
   \<and> (fst (getPrivateKey lib w) = Inl MissingEnvError \<longrightarrow> snd (getPrivateKey lib w) = w)"
proof (cases "falsy (env w ''LINUX_CSC_LINK'') \<or> falsy (env w ''LINUX_CSC_KEY_PASSWORD'')")
  case True
  then have "getPrivateKey lib w = (Inl MissingEnvError, w)"
    by (rule getPrivateKey_missing)
  with True show ?thesis
    by (simp add: falsy_iff)
next
  case False
  then have "fst (getPrivateKey lib w) \<noteq> Inl MissingEnvError"
    by (simp add: getPrivateKey_not_MissingEnvError)
  with False show ?thesis
    by (simp add: falsy_iff)
qed

theorem getPrivateKey_MissingEnvError_iff_witness:
  "env (demo_world (Some []) (Some ''secret'') [(''/k/cert.p12'', [1])]) ''LINUX_CSC_LINK'' = Some []
   \<and> fst (getPrivateKey demo_forge (demo_world (Some []) (Some ''secret'') [(''/k/cert.p12'', [1])]))
       = Inl MissingEnvError
   \<and> snd (getPrivateKey demo_forge (demo_world (Some []) (Some ''secret'') [(''/k/cert.p12'', [1])]))
       = demo_world (Some []) (Some ''secret'') [(''/k/cert.p12'', [1])]
   \<and> fst (getPrivateKey demo_forge
            (demo_world (Some ''/k/missing.p12'') (Some ''secret'') [(''/k/cert.p12'', [1])]))
       = Inl (ReadFailed ''/k/missing.p12'')"
proof -
  let ?w = "demo_world (Some []) (Some ''secret'') [(''/k/cert.p12'', [1])]"
  have e: "env ?w ''LINUX_CSC_LINK'' = Some []"
    by (simp add: demo_world_def)
  have "fst (getPrivateKey demo_forge
            (demo_world (Some ''/k/missing.p12'') (Some ''secret'') [(''/k/cert.p12'', [1])]))
       = Inl (ReadFailed ''/k/missing.p12'')"
    by (simp add: demo_simps)
  with e getPrivateKey_MissingEnvError_iff[of demo_forge ?w] show ?thesis
    by simp
qed

text \<open>
  C6.  Two successful runs of \<open>signer\<close>, in any two states and on any two paths, that read
  the same file bytes and extract the same key leave the same bytes in their signature
  files.  (The signature scheme is a function of the key and the digest: PKCS#1 v1.5 uses
  no randomness.)
\<close>

theorem signer_deterministic:
  assumes "signer lib w1 p1 = (Inr (), w1')"
    and "signer lib w2 p2 = (Inr (), w2')"
    and "files w1 p1 = files w2 p2"
    and "fst (getPrivateKey lib w1) = fst (getPrivateKey lib w2)"
  shows "files w1' (sigOutPath p1) = files w2' (sigOutPath p2)"
proof -
  from signer_success[OF assms(1)] obtain d1 k1 s1 where 1:
    "files w1 p1 = Some d1" "fst (getPrivateKey lib w1) = Inr (Some k1)"
    "rsassa_pkcs1_v1_5 lib k1 (sha512_digest lib (toString_binary d1)) = Inr s1"
    "files w1' (sigOutPath p1) = Some (Buffer_from_binary s1)"
    by (auto simp: file_put_same)
  from signer_success[OF assms(2)] obtain d2 k2 s2 where 2:
    "files w2 p2 = Some d2" "fst (getPrivateKey lib w2) = Inr (Some k2)"
    "rsassa_pkcs1_v1_5 lib k2 (sha512_digest lib (toString_binary d2)) = Inr s2"
    "files w2' (sigOutPath p2) = Some (Buffer_from_binary s2)"
    by (auto simp: file_put_same)
  from 1 2 assms(3,4) have "d1 = d2" "k1 = k2" by simp_all
  with 1 2 show ?thesis by simp
qed

theorem signer_deterministic_witness:
  "fst (signer demo_forge
          (demo_world (Some ''/k/cert.p12'') (Some ''secret'')
             [(''/a/b/artifact.bin'', [1, 2, 3]), (''/k/cert.p12'', [1])]) ''/a/b/artifact.bin'') = Inr ()
   \<and> fst (signer demo_forge
          (demo_world (Some ''/other.p12'') (Some ''secret'')
             [(''/x/y.bin'', [1, 2, 3]), (''/other.p12'', [5, 1, 2])]) ''/x/y.bin'') = Inr ()
   \<and> files (snd (signer demo_forge
          (demo_world (Some ''/k/cert.p12'') (Some ''secret'')
             [(''/a/b/artifact.bin'', [1, 2, 3]), (''/k/cert.p12'', [1])]) ''/a/b/artifact.bin''))
        ''/a/b/artifact.bin-sig.bin''
     = files (snd (signer demo_forge
          (demo_world (Some ''/other.p12'') (Some ''secret'')
             [(''/x/y.bin'', [1, 2, 3]), (''/other.p12'', [5, 1, 2])]) ''/x/y.bin''))
        ''/x/y.bin-sig.bin''"
proof -
  let ?w1 = "demo_world (Some ''/k/cert.p12'') (Some ''secret'')
             [(''/a/b/artifact.bin'', [1, 2, 3]), (''/k/cert.p12'', [1])]"
  let ?w2 = "demo_world (Some ''/other.p12'') (Some ''secret'')
             [(''/x/y.bin'', [1, 2, 3]), (''/other.p12'', [5, 1, 2])]"
  let ?r1 = "signer demo_forge ?w1 ''/a/b/artifact.bin''"
  let ?r2 = "signer demo_forge ?w2 ''/x/y.bin''"
  have ok1: "fst ?r1 = Inr ()" and ok2: "fst ?r2 = Inr ()"
    by (simp_all add: demo_simps)
  then have r1: "?r1 = (Inr (), snd ?r1)" and r2: "?r2 = (Inr (), snd ?r2)"
    by (simp_all add: prod_eq_iff)
  have same_bytes: "files ?w1 ''/a/b/artifact.bin'' = files ?w2 ''/x/y.bin''"
    by (simp add: demo_world_def path_normalize_examples)
  have same_key: "fst (getPrivateKey demo_forge ?w1) = fst (getPrivateKey demo_forge ?w2)"
    by (simp add: demo_simps)
  from signer_deterministic[OF r1 r2 same_bytes same_key] ok1 ok2 show ?thesis
    by (simp add: sigOutPath_example sigOutPath_example2)
qed

text \<open>
  C7 (as amended).  When \<open>signer\<close> fails for any reason other than the failure of its last
  statement, \<open>fs.writeFileSync\<close>, it fails before any write begins: the files are what they
  were and the trace holds no new write.  That covers missing configuration, an unreadable
  target or bundle, a bundle that does not parse or decrypt, a missing key bag and a failed
  signing.  The write itself is not atomic: the script writes the signature path in place.
  When \<open>fs.writeFileSync\<close> fails, either the path could not be opened and nothing has
  changed, or the write broke off after \<open>n\<close> bytes and the signature file (under every
  name it has) holds the first \<open>n\<close> bytes of the signature and nothing else, while every
  other file is what it was.
\<close>

theorem signer_failure_effect:
  fixes lib :: "('a, 'k, 'e) forge"
  assumes "signer lib w filePath = (Inl e, w')"
  shows "(e \<noteq> WriteFailed (sigOutPath filePath) \<longrightarrow>
            files w' = files w \<and> filter is_write (trace w') = filter is_write (trace w))
         \<and> (e = WriteFailed (sigOutPath filePath) \<longrightarrow>
              (on_write w (sigOutPath filePath) = FailsAtOpen
                 \<and> files w' = files w
                 \<and> filter is_write (trace w') = filter is_write (trace w))
              \<or> (\<exists>n fileData k s.
                    on_write w (sigOutPath filePath) = FailsAfter n
                    \<and> files w filePath = Some fileData
                    \<and> fst (getPrivateKey lib w) = Inr (Some k)
                    \<and> rsassa_pkcs1_v1_5 lib k (sha512_digest lib (toString_binary fileData)) = Inr s
                    \<and> (\<forall>q. files w' q =
                          (if same_file w q (sigOutPath filePath)
                           then Some (take n (Buffer_from_binary s)) else files w q))
                    \<and> filter is_write (trace w') =
                        filter is_write (trace w)
                          @ [WriteFile (sigOutPath filePath) (take n (Buffer_from_binary s))]))"
  using assms
proof (cases rule: signer_cases)
  case (stopped e')
  then show ?thesis by auto
next
  case (writing fileData k s)
  from writing(4) show ?thesis
  proof (cases rule: writeFileSync_cases)
    case completes
    then show ?thesis by simp
  next
    case at_open
    then show ?thesis by simp
  next
    case (broken_off n)
    then have "on_write w (sigOutPath filePath) = FailsAfter n"
      and "e = WriteFailed (sigOutPath filePath)"
      and "\<forall>q. files w' q =
              (if same_file w q (sigOutPath filePath)
               then Some (take n (Buffer_from_binary s)) else files w q)"
      and "filter is_write (trace w') =
             filter is_write (trace w)
               @ [WriteFile (sigOutPath filePath) (take n (Buffer_from_binary s))]"
      by (simp_all add: file_put_def)
    with writing(1-3) show ?thesis by blast
  qed
qed

theorem signer_failure_effect_witness:
  "fst (signer demo_forge
          (demo_world (Some ''/k/cert.p12'') (Some ''wrong'')
             [(''/a/b/artifact.bin'', [1, 2, 3]), (''/k/cert.p12'', [1])]) ''/a/b/artifact.bin'')
     = Inl (ForgeError ''Invalid password?'')
   \<and> files (snd (signer demo_forge
          (demo_world (Some ''/k/cert.p12'') (Some ''wrong'')
             [(''/a/b/artifact.bin'', [1, 2, 3]), (''/k/cert.p12'', [1])]) ''/a/b/artifact.bin''))
     = files (demo_world (Some ''/k/cert.p12'') (Some ''wrong'')
             [(''/a/b/artifact.bin'', [1, 2, 3]), (''/k/cert.p12'', [1])])
   \<and> filter is_write (trace (snd (signer demo_forge
          (demo_world (Some ''/k/cert.p12'') (Some ''wrong'')
             [(''/a/b/artifact.bin'', [1, 2, 3]), (''/k/cert.p12'', [1])]) ''/a/b/artifact.bin''))) = []
   \<and> fst (signer demo_forge
          ((demo_world (Some ''/k/cert.p12'') (Some ''secret'')
             [(''/a/b/artifact.bin'', [1, 2, 3]), (''/k/cert.p12'', [1])])
           \<lparr>on_write := (\<lambda>_. FailsAfter 1)\<rparr>) ''/a/b/artifact.bin'')
     = Inl (WriteFailed ''/a/b/artifact.bin-sig.bin'')
   \<and> files (snd (signer demo_forge
          ((demo_world (Some ''/k/cert.p12'') (Some ''secret'')
             [(''/a/b/artifact.bin'', [1, 2, 3]), (''/k/cert.p12'', [1])])
           \<lparr>on_write := (\<lambda>_. FailsAfter 1)\<rparr>) ''/a/b/artifact.bin''))
        ''/a/b/artifact.bin-sig.bin'' = Some [10]
   \<and> files (snd (signer demo_forge
          ((demo_world (Some ''/k/cert.p12'') (Some ''secret'')
             [(''/a/b/artifact.bin'', [1, 2, 3]), (''/k/cert.p12'', [1])])
           \<lparr>on_write := (\<lambda>_. FailsAfter 1)\<rparr>) ''/a/b/artifact.bin''))
        ''/a/b/artifact.bin'' = Some [1, 2, 3]"
proof -
  let ?w = "demo_world (Some ''/k/cert.p12'') (Some ''wrong'')
             [(''/a/b/artifact.bin'', [1, 2, 3]), (''/k/cert.p12'', [1])]"
  let ?r = "signer demo_forge ?w ''/a/b/artifact.bin''"
  let ?v = "(demo_world (Some ''/k/cert.p12'') (Some ''secret'')
             [(''/a/b/artifact.bin'', [1, 2, 3]), (''/k/cert.p12'', [1])])
           \<lparr>on_write := (\<lambda>_. FailsAfter 1)\<rparr>"
  let ?t = "signer demo_forge ?v ''/a/b/artifact.bin''"
  have failed: "fst ?r = Inl (ForgeError ''Invalid password?'')"
    by (simp add: demo_simps)
  then have "?r = (Inl (ForgeError ''Invalid password?''), snd ?r)"
    by (simp add: prod_eq_iff)
  from signer_failure_effect[OF this]
  have early: "files (snd ?r) = files ?w" "filter is_write (trace (snd ?r)) = []"
    by (simp_all add: demo_world_def)
  have broken: "fst ?t = Inl (WriteFailed ''/a/b/artifact.bin-sig.bin'')"
    by (simp add: demo_simps)
  then have "?t = (Inl (WriteFailed ''/a/b/artifact.bin-sig.bin''), snd ?t)"
    by (simp add: prod_eq_iff)
  from signer_failure_effect[OF this]
  obtain n fileData k s where "on_write ?v ''/a/b/artifact.bin-sig.bin'' = FailsAfter n"
    and "files ?v ''/a/b/artifact.bin'' = Some fileData"
    and "fst (getPrivateKey demo_forge ?v) = Inr (Some k)"
    and "rsassa_pkcs1_v1_5 demo_forge k (sha512_digest demo_forge (toString_binary fileData)) = Inr s"
    and after: "\<forall>q. files (snd ?t) q =
                  (if same_file ?v q ''/a/b/artifact.bin-sig.bin''
                   then Some (take n (Buffer_from_binary s)) else files ?v q)"
    by (auto simp: sigOutPath_example demo_world_def)
  then have "n = 1" "fileData = [1, 2, 3]" "k = 7" "s = [10, 13]"
    by (auto simp: demo_simps)
  with after have "files (snd ?t) ''/a/b/artifact.bin-sig.bin'' = Some [10]"
    and "files (snd ?t) ''/a/b/artifact.bin'' = Some [1, 2, 3]"
    by (simp_all add: demo_simps)
  with failed early broken show ?thesis by simp
qed

text \<open>
  C7 as stated fails when it is the write that fails.  With a signature file of an earlier
  run in place (\<open>[9, 9]\<close>) and a write that breaks off, the run ends in the error of
  \<open>fs.writeFileSync\<close> and the signature file is left empty when no byte got through, and
  with the first byte of the two-byte signature \<open>[10, 13]\<close> when one did.
\<close>

theorem signer_write_failure_leaves_partial_file:
  "files (demo_world (Some ''/k/cert.p12'') (Some ''secret'')
             [(''/a/b/artifact.bin'', [1, 2, 3]), (''/a/b/artifact.bin-sig.bin'', [9, 9]),
              (''/k/cert.p12'', [1])]) ''/a/b/artifact.bin-sig.bin'' = Some [9, 9]
   \<and> fst (signer demo_forge
          ((demo_world (Some ''/k/cert.p12'') (Some ''secret'')
             [(''/a/b/artifact.bin'', [1, 2, 3]), (''/a/b/artifact.bin-sig.bin'', [9, 9]),
              (''/k/cert.p12'', [1])])
           \<lparr>on_write := (\<lambda>_. FailsAfter 0)\<rparr>) ''/a/b/artifact.bin'')
     = Inl (WriteFailed ''/a/b/artifact.bin-sig.bin'')
   \<and> files (snd (signer demo_forge
          ((demo_world (Some ''/k/cert.p12'') (Some ''secret'')
             [(''/a/b/artifact.bin'', [1, 2, 3]), (''/a/b/artifact.bin-sig.bin'', [9, 9]),
              (''/k/cert.p12'', [1])])
           \<lparr>on_write := (\<lambda>_. FailsAfter 0)\<rparr>) ''/a/b/artifact.bin''))
        ''/a/b/artifact.bin-sig.bin'' = Some []
   \<and> fst (signer demo_forge
          ((demo_world (Some ''/k/cert.p12'') (Some ''secret'')
             [(''/a/b/artifact.bin'', [1, 2, 3]), (''/a/b/artifact.bin-sig.bin'', [9, 9]),
              (''/k/cert.p12'', [1])])
           \<lparr>on_write := (\<lambda>_. FailsAfter 1)\<rparr>) ''/a/b/artifact.bin'')
     = Inl (WriteFailed ''/a/b/artifact.bin-sig.bin'')
   \<and> files (snd (signer demo_forge
          ((demo_world (Some ''/k/cert.p12'') (Some ''secret'')
             [(''/a/b/artifact.bin'', [1, 2, 3]), (''/a/b/artifact.bin-sig.bin'', [9, 9]),
              (''/k/cert.p12'', [1])])
           \<lparr>on_write := (\<lambda>_. FailsAfter 1)\<rparr>) ''/a/b/artifact.bin''))
        ''/a/b/artifact.bin-sig.bin'' = Some [10]
   \<and> files (snd (signer demo_forge
          (demo_world (Some ''/k/cert.p12'') (Some ''secret'')
             [(''/a/b/artifact.bin'', [1, 2, 3]), (''/a/b/artifact.bin-sig.bin'', [9, 9]),
              (''/k/cert.p12'', [1])]) ''/a/b/artifact.bin''))
        ''/a/b/artifact.bin-sig.bin'' = Some [10, 13]"
  by (simp add: demo_simps)

text \<open>
  C8 (as amended).  A successful run writes exactly one file, the file that the signature
  path names (created, or overwritten when it exists), and what it writes there is the
  signature: the RSASSA-PKCS1-v1_5 signature, under the extracted key, of the SHA-512
  digest of the target's bytes, and nothing else (the key itself is not written).  Every
  path that does not name that file reads what it read before, whatever path text is used
  for it; every path that does name it reads the signature.  So the target file is
  unchanged whenever the signature path does not name the target itself, and the
  credential bundle is unchanged whenever the signature path does not name the bundle.
  The environment is not changed.
\<close>

theorem signer_success_writes_one_file:
  fixes lib :: "('a, 'k, 'e) forge"
  assumes "signer lib w filePath = (Inr (), w')"
  shows "\<exists>fileData k s.
           files w filePath = Some fileData
           \<and> fst (getPrivateKey lib w) = Inr (Some k)
           \<and> rsassa_pkcs1_v1_5 lib k (sha512_digest lib (toString_binary fileData)) = Inr s
           \<and> (\<forall>q. files w' q =
                 (if same_file w q (sigOutPath filePath)
                  then Some (Buffer_from_binary s) else files w q))
           \<and> filter is_write (trace w') =
               filter is_write (trace w) @ [WriteFile (sigOutPath filePath) (Buffer_from_binary s)]
           \<and> (\<not> same_file w filePath (sigOutPath filePath) \<longrightarrow> files w' filePath = Some fileData)
           \<and> (\<forall>lnk. env w ''LINUX_CSC_LINK'' = Some lnk \<and> \<not> same_file w lnk (sigOutPath filePath)
                 \<longrightarrow> files w' lnk = files w lnk)
           \<and> env w' = env w \<and> canonical w' = canonical w"
proof -
  from signer_success[OF assms] obtain fileData k s where 1:
    "files w filePath = Some fileData"
    "fst (getPrivateKey lib w) = Inr (Some k)"
    "rsassa_pkcs1_v1_5 lib k (sha512_digest lib (toString_binary fileData)) = Inr s"
    and w': "w' = (w_keyed lib w filePath)
             \<lparr>files := file_put w (sigOutPath filePath) (Buffer_from_binary s),
               trace := trace (w_keyed lib w filePath)
                          @ [WriteFile (sigOutPath filePath) (Buffer_from_binary s)]\<rparr>"
    by blast
  have 2: "\<forall>q. files w' q =
             (if same_file w q (sigOutPath filePath)
              then Some (Buffer_from_binary s) else files w q)"
    unfolding w' by (simp add: file_put_def)
  have 3: "filter is_write (trace w') =
             filter is_write (trace w) @ [WriteFile (sigOutPath filePath) (Buffer_from_binary s)]"
    unfolding w' by simp
  have 4: "env w' = env w" "canonical w' = canonical w"
    unfolding w' by simp_all
  from 2 1(1) have 5: "\<not> same_file w filePath (sigOutPath filePath) \<longrightarrow> files w' filePath = Some fileData"
    by simp
  from 2 have 6: "\<forall>lnk. env w ''LINUX_CSC_LINK'' = Some lnk \<and> \<not> same_file w lnk (sigOutPath filePath)
                 \<longrightarrow> files w' lnk = files w lnk"
    by simp
  from 1 2 3 4 5 6 show ?thesis by blast
qed

theorem signer_success_writes_one_file_witness:
  "fst (signer demo_forge
          (demo_world (Some ''/k/cert.p12'') (Some ''secret'')
             [(''artifact.bin'', [1, 2, 3]), (''/k/cert.p12'', [1])]) ''./artifact.bin'') = Inr ()
   \<and> files (snd (signer demo_forge
          (demo_world (Some ''/k/cert.p12'') (Some ''secret'')
             [(''artifact.bin'', [1, 2, 3]), (''/k/cert.p12'', [1])]) ''./artifact.bin''))
        ''/k/cert.p12'' = Some [1]
   \<and> files (snd (signer demo_forge
          (demo_world (Some ''/k/cert.p12'') (Some ''secret'')
             [(''artifact.bin'', [1, 2, 3]), (''/k/cert.p12'', [1])]) ''./artifact.bin''))
        ''./artifact.bin'' = Some [1, 2, 3]
   \<and> files (snd (signer demo_forge
          (demo_world (Some ''/k/cert.p12'') (Some ''secret'')
             [(''artifact.bin'', [1, 2, 3]), (''/k/cert.p12'', [1])]) ''./artifact.bin''))
        ''artifact.bin-sig.bin'' = Some [10, 13]
   \<and> files (snd (signer demo_forge
          (demo_world (Some ''/k/cert.p12'') (Some ''secret'')
             [(''artifact.bin'', [1, 2, 3]), (''/k/cert.p12'', [1])]) ''./artifact.bin''))
        ''./artifact.bin-sig.bin'' = Some [10, 13]
   \<and> filter is_write (trace (snd (signer demo_forge
          (demo_world (Some ''/k/cert.p12'') (Some ''secret'')
             [(''artifact.bin'', [1, 2, 3]), (''/k/cert.p12'', [1])]) ''./artifact.bin'')))
       = [WriteFile ''artifact.bin-sig.bin'' [10, 13]]"
proof -
  let ?w = "demo_world (Some ''/k/cert.p12'') (Some ''secret'')
             [(''artifact.bin'', [1, 2, 3]), (''/k/cert.p12'', [1])]"
  let ?r = "signer demo_forge ?w ''./artifact.bin''"
  have ok: "fst ?r = Inr ()"
    by (simp add: demo_simps)
  then have r: "?r = (Inr (), snd ?r)"
    by (simp add: prod_eq_iff)
  have other: "\<not> same_file ?w ''./artifact.bin'' ''artifact.bin-sig.bin''"
    "\<not> same_file ?w ''/k/cert.p12'' ''artifact.bin-sig.bin''"
    "same_file ?w ''./artifact.bin-sig.bin'' ''artifact.bin-sig.bin''"
    "env ?w ''LINUX_CSC_LINK'' = Some ''/k/cert.p12''"
    by (simp_all add: same_file_def demo_world_def path_normalize_examples)
  from signer_success_writes_one_file[OF r]
  obtain fileData k s where "files ?w ''./artifact.bin'' = Some fileData"
    and "fst (getPrivateKey demo_forge ?w) = Inr (Some k)"
    and "rsassa_pkcs1_v1_5 demo_forge k (sha512_digest demo_forge (toString_binary fileData)) = Inr s"
    and after: "\<forall>q. files (snd ?r) q =
                  (if same_file ?w q ''artifact.bin-sig.bin''
                   then Some (Buffer_from_binary s) else files ?w q)"
    and writes: "filter is_write (trace (snd ?r)) =
               filter is_write (trace ?w) @ [WriteFile ''artifact.bin-sig.bin'' (Buffer_from_binary s)]"
    and target: "\<not> same_file ?w ''./artifact.bin'' ''artifact.bin-sig.bin''
                   \<longrightarrow> files (snd ?r) ''./artifact.bin'' = Some fileData"
    and cred: "\<forall>lnk. env ?w ''LINUX_CSC_LINK'' = Some lnk
                     \<and> \<not> same_file ?w lnk ''artifact.bin-sig.bin''
                   \<longrightarrow> files (snd ?r) lnk = files ?w lnk"
    by (auto simp: sigOutPath_example3)
  then have "fileData = [1, 2, 3]" "k = 7" "s = [10, 13]"
    by (auto simp: demo_simps)
  with after writes target cred other
  have "files (snd ?r) ''/k/cert.p12'' = files ?w ''/k/cert.p12''"
    and "files (snd ?r) ''./artifact.bin'' = Some [1, 2, 3]"
    and "files (snd ?r) ''artifact.bin-sig.bin'' = Some (Buffer_from_binary [10, 13])"
    and "files (snd ?r) ''./artifact.bin-sig.bin'' = Some (Buffer_from_binary [10, 13])"
    and "filter is_write (trace (snd ?r)) =
           filter is_write (trace ?w) @ [WriteFile ''artifact.bin-sig.bin'' (Buffer_from_binary [10, 13])]"
    by (simp_all add: same_file_refl)
  then have "files (snd ?r) ''/k/cert.p12'' = Some [1]"
    and "files (snd ?r) ''./artifact.bin'' = Some [1, 2, 3]"
    and "files (snd ?r) ''artifact.bin-sig.bin'' = Some [10, 13]"
    and "files (snd ?r) ''./artifact.bin-sig.bin'' = Some [10, 13]"
    and "filter is_write (trace (snd ?r)) = [WriteFile ''artifact.bin-sig.bin'' [10, 13]]"
    by (simp_all add: demo_world_def path_normalize_examples Buffer_from_binary_def)
  with ok show ?thesis by simp
qed

text \<open>
  C8 as stated fails.  When the bundle path is the signature path
  (\<open>LINUX_CSC_LINK=/a/b/artifact.bin-sig.bin\<close>), signing \<open>/a/b/artifact.bin\<close> succeeds and
  replaces the bundle by the signature; no new file has been created by that run either:
  the file it writes existed.  When the signature path is a link to the target file, the
  run replaces the target's content by the signature.
\<close>

theorem signer_overwrites_bundle_at_signature_path:
  "fst (signer demo_forge
          (demo_world (Some ''/a/b/artifact.bin-sig.bin'') (Some ''secret'')
             [(''/a/b/artifact.bin'', [1, 2, 3]), (''/a/b/artifact.bin-sig.bin'', [1])])
          ''/a/b/artifact.bin'') = Inr ()
   \<and> files (demo_world (Some ''/a/b/artifact.bin-sig.bin'') (Some ''secret'')
             [(''/a/b/artifact.bin'', [1, 2, 3]), (''/a/b/artifact.bin-sig.bin'', [1])])
        ''/a/b/artifact.bin-sig.bin'' = Some [1]
   \<and> files (snd (signer demo_forge
          (demo_world (Some ''/a/b/artifact.bin-sig.bin'') (Some ''secret'')
             [(''/a/b/artifact.bin'', [1, 2, 3]), (''/a/b/artifact.bin-sig.bin'', [1])])
          ''/a/b/artifact.bin'')) ''/a/b/artifact.bin-sig.bin'' = Some [10, 13]
   \<and> fst (signer demo_forge
          (demo_link ''/a/b/artifact.bin-sig.bin'' ''/a/b/artifact.bin''
             (demo_world (Some ''/k/cert.p12'') (Some ''secret'')
                [(''/a/b/artifact.bin'', [1, 2, 3]), (''/k/cert.p12'', [1])]))
          ''/a/b/artifact.bin'') = Inr ()
   \<and> files (snd (signer demo_forge
          (demo_link ''/a/b/artifact.bin-sig.bin'' ''/a/b/artifact.bin''
             (demo_world (Some ''/k/cert.p12'') (Some ''secret'')
                [(''/a/b/artifact.bin'', [1, 2, 3]), (''/k/cert.p12'', [1])]))
          ''/a/b/artifact.bin'')) ''/a/b/artifact.bin'' = Some [10, 13]"
  by (simp add: demo_simps)

text \<open>
  C9.  Once the bundle has been read and parsed, \<open>bag[0].key\<close> raises the \<open>TypeError\<close> of a
  property read on \<open>undefined\<close> exactly when no bag of the bundle has the identifier among
  its \<open>localKeyId\<close> values; otherwise \<open>getPrivateKey\<close> returns the \<open>key\<close> of the first such
  bag.
\<close>

theorem bag0_key_TypeError_iff:
  assumes "env w ''LINUX_CSC_LINK'' = Some lnk" "lnk \<noteq> []"
    and "env w ''LINUX_CSC_KEY_PASSWORD'' = Some pass" "pass \<noteq> []"
    and "files w lnk = Some buf"
    and "asn1_fromDer lib (decode64 (toString_base64 buf)) = Inr p12Asn1"
    and "pkcs12FromAsn1 lib p12Asn1 pass = Inr p12"
  shows "(fst (getPrivateKey lib w) = Inl (TypeError ''key'') \<longleftrightarrow>
            \<not> (\<exists>bag \<in> set (concat p12). \<exists>vals.
                  localKeyId bag = Some vals \<and> hexToBytes localKeyIdHex \<in> set vals))
         \<and> (fst (getPrivateKey lib w) \<noteq> Inl (TypeError ''key'') \<longrightarrow>
              fst (getPrivateKey lib w) = Inr (key (hd (getBags_localKeyIdHex p12 localKeyIdHex))))"
proof -
  have "fst (getPrivateKey lib w) =
          (case getBags_localKeyIdHex p12 localKeyIdHex of
             [] \<Rightarrow> Inl (TypeError ''key'')
           | bag0 # _ \<Rightarrow> Inr (key bag0))"
    using assms by (simp add: getPrivateKey_configured)
  then show ?thesis
    using getBags_Nil_iff[of p12 localKeyIdHex]
    by (cases "getBags_localKeyIdHex p12 localKeyIdHex") simp_all
qed

theorem bag0_key_TypeError_iff_witness:
  "fst (getPrivateKey demo_forge
          (demo_world (Some ''/k/cert.p12'') (Some ''secret'') [(''/k/cert.p12'', [3, 4])]))
     = Inl (TypeError ''key'')
   \<and> \<not> (\<exists>bag \<in> set (concat [map demo_bag [3, 4]]). \<exists>vals.
            localKeyId bag = Some vals \<and> hexToBytes localKeyIdHex \<in> set vals)
   \<and> fst (getPrivateKey demo_forge
          (demo_world (Some ''/k/cert.p12'') (Some ''secret'') [(''/k/cert.p12'', [3, 1])]))
     = Inr (Some 7)"
proof -
  let ?w = "demo_world (Some ''/k/cert.p12'') (Some ''secret'') [(''/k/cert.p12'', [3, 4])]"
  have 1: "env ?w ''LINUX_CSC_LINK'' = Some ''/k/cert.p12''" "''/k/cert.p12'' \<noteq> []"
    and 2: "env ?w ''LINUX_CSC_KEY_PASSWORD'' = Some ''secret''" "''secret'' \<noteq> []"
    and 3: "files ?w ''/k/cert.p12'' = Some [3, 4]"
    by (simp_all add: demo_world_def path_normalize_examples)
  have 4: "asn1_fromDer demo_forge (decode64 (toString_base64 [3, 4])) = Inr [3, 4]"
    by (simp add: demo_forge_def decode64_toString_base64 toString_binary_def)
  have 5: "pkcs12FromAsn1 demo_forge [3, 4] ''secret'' = Inr [map demo_bag [3, 4]]"
    by (simp add: demo_forge_def)
  have none: "\<not> (\<exists>bag \<in> set (concat [map demo_bag [3, 4]]). \<exists>vals.
            localKeyId bag = Some vals \<and> hexToBytes localKeyIdHex \<in> set vals)"
    by (simp add: demo_bag_def hexToBytes_localKeyIdHex)
  have other: "fst (getPrivateKey demo_forge
          (demo_world (Some ''/k/cert.p12'') (Some ''secret'') [(''/k/cert.p12'', [3, 1])]))
     = Inr (Some 7)"
    by (simp add: demo_simps)
  from bag0_key_TypeError_iff[OF 1 2 3 4 5] none other show ?thesis
    by blast
qed

text \<open>
  C10.  Decoding with \<open>forge.util.decode64\<close> what \<open>buf.toString('base64')\<close> encoded gives the
  binary string of the buffer, one code unit per byte with the byte's value: the ASN.1
  parser receives the bytes of the bundle file, all of them and nothing else.
\<close>

theorem decode64_toString_base64_identity:
  "decode64 (toString_base64 buf) = toString_binary buf
   \<and> Buffer_from_binary (decode64 (toString_base64 buf)) = buf"
  by (simp add: decode64_toString_base64 Buffer_from_binary_toString_binary)

end
